theory Spec2Isabelle
  imports
    Main
    "HOL-Library.AList"
    "HOL-Library.List_Lexorder"
    "HOL-Library.Product_Lexorder"
    "HOL-Library.Sublist"
    "HOL-Library.Multiset"
begin

section \<open>Python text and values\<close>

text \<open>
  A Python \<^verbatim>\<open>str\<close> is a sequence of Unicode code points: \<^verbatim>\<open>len\<close>, slicing and
  comparison all count code points. The model therefore takes a text to be a list of
  code points (natural numbers); \<open>u\<close> turns an ASCII literal into such a text.
  Comparison of texts is the lexicographic order on code points
  (the theory List_Lexorder of the library), as \<^verbatim>\<open><\<close> on \<^verbatim>\<open>str\<close> is.
\<close>

type_synonym ustr = "nat list"

definition u :: "string \<Rightarrow> ustr" where
  "u s = map of_char s"

text \<open>
  The values a document of the store can hold (\<^verbatim>\<open>Dict[str, Any]\<close> in the source).
  A date/time value is carried as the text its \<^verbatim>\<open>isoformat()\<close> returns, an
  \<^verbatim>\<open>ObjectId\<close> as the text \<^verbatim>\<open>str()\<close> returns for it.
\<close>

datatype pyval =
    VNone
  | VBool bool
  | VInt int
  | VStr ustr
  | VDate ustr
  | VOid ustr
  | VList "pyval list"
  | VDict "(ustr \<times> pyval) list"

text \<open>
  A \<^verbatim>\<open>dict\<close> keeps insertion order, so a document is an association list;
  Python dictionaries have no duplicate keys, which the theorems state as
  \<open>distinct (map fst d)\<close> where it matters. \<^verbatim>\<open>d.get(k)\<close> is \<open>map_of d k\<close>;
  \<^verbatim>\<open>d[k] = v\<close> replaces the value of an existing key in place and appends a
  new key at the end.
\<close>

type_synonym doc = "(ustr \<times> pyval) list"

definition dict_set :: "doc \<Rightarrow> ustr \<Rightarrow> pyval \<Rightarrow> doc" where
  "dict_set d k v = AList.update k v d"

definition dict_get :: "doc \<Rightarrow> ustr \<Rightarrow> pyval \<Rightarrow> pyval" where
  "dict_get d k dflt = (case map_of d k of None \<Rightarrow> dflt | Some v \<Rightarrow> v)"

text \<open>
  Two built-ins of Python are not defined here but taken as parameters, so that every
  theorem holds whatever they compute: \<^verbatim>\<open>str(v)\<close> on a value that is neither a text
  nor an identifier (it needs \<^verbatim>\<open>repr\<close> for containers), and \<^verbatim>\<open>str.lower()\<close>
  (it follows the Unicode case tables).
\<close>

record builtins =
  str_other :: "pyval \<Rightarrow> ustr"
  str_lower :: "ustr \<Rightarrow> ustr"

fun py_str :: "builtins \<Rightarrow> pyval \<Rightarrow> ustr" where
  "py_str B (VStr s) = s"
| "py_str B (VOid h) = h"
| "py_str B v = str_other B v"

text \<open>Truth value of a Python value, as \<^verbatim>\<open>not v\<close> tests it.\<close>

fun truthy :: "pyval \<Rightarrow> bool" where
  "truthy VNone = False"
| "truthy (VBool b) = b"
| "truthy (VInt i) = (i \<noteq> 0)"
| "truthy (VStr s) = (s \<noteq> [])"
| "truthy (VDate t) = True"
| "truthy (VOid h) = True"
| "truthy (VList xs) = (xs \<noteq> [])"
| "truthy (VDict kvs) = (kvs \<noteq> [])"

text \<open>
  The characters \<^verbatim>\<open>str.strip()\<close> and \<^verbatim>\<open>str.split()\<close> treat as whitespace:
  U+0009..U+000D, U+001C..U+0020, U+0085, U+00A0, U+1680, U+2000..U+200A, U+2028,
  U+2029, U+202F, U+205F and U+3000.
\<close>

definition is_space :: "nat \<Rightarrow> bool" where
  "is_space c \<longleftrightarrow>
     (9 \<le> c \<and> c \<le> 13) \<or> (28 \<le> c \<and> c \<le> 32) \<or> c = 133 \<or> c = 160 \<or> c = 5760 \<or>
     (8192 \<le> c \<and> c \<le> 8202) \<or> c = 8232 \<or> c = 8233 \<or> c = 8239 \<or> c = 8287 \<or> c = 12288"

definition str_strip :: "ustr \<Rightarrow> ustr" where
  "str_strip s = rev (dropWhile is_space (rev (dropWhile is_space s)))"

text \<open>
  \<^verbatim>\<open>s.split()\<close>: the maximal runs of characters that are not whitespace, in order.
  \<open>split_loop word cs\<close> scans \<open>cs\<close> with the word read so far.
\<close>

fun split_loop :: "ustr \<Rightarrow> ustr \<Rightarrow> ustr list" where
  "split_loop word [] = (if word = [] then [] else [word])"
| "split_loop word (c # cs) =
     (if is_space c then (if word = [] then split_loop [] cs else word # split_loop [] cs)
      else split_loop (word @ [c]) cs)"

definition str_split :: "ustr \<Rightarrow> ustr list" where
  "str_split s = split_loop [] s"

text \<open>\<^verbatim>\<open>sep.join(parts)\<close>.\<close>

fun str_join :: "ustr \<Rightarrow> ustr list \<Rightarrow> ustr" where
  "str_join sep [] = []"
| "str_join sep [p] = p"
| "str_join sep (p # q # ps) = p @ sep @ str_join sep (q # ps)"

section \<open>Errors\<close>

text \<open>
  What an endpoint can raise: the \<^verbatim>\<open>HTTPException\<close> of the source with its status
  code and detail, a \<^verbatim>\<open>TypeError\<close> of the interpreter, and an exception raised by the
  store client, carried as the text \<^verbatim>\<open>str(e)\<close> returns.
\<close>

datatype error = HTTPException nat ustr | TypeError | StoreError ustr

fun error_text :: "error \<Rightarrow> ustr" where
  "error_text (StoreError m) = m"
| "error_text (HTTPException code detail) = detail"
| "error_text TypeError = []"

text \<open>Running a function that may raise over a list, in order, stopping at the first error.\<close>

fun collect :: "('a \<Rightarrow> error + 'b) \<Rightarrow> 'a list \<Rightarrow> error + 'b list" where
  "collect f [] = Inr []"
| "collect f (x # xs) =
     (case f x of
        Inl e \<Rightarrow> Inl e
      | Inr y \<Rightarrow> (case collect f xs of Inl e \<Rightarrow> Inl e | Inr ys \<Rightarrow> Inr (y # ys)))"

section \<open>Serialization: \<^verbatim>\<open>serialize_doc\<close>\<close>

text \<open>\<^verbatim>\<open>hasattr(v, "isoformat")\<close> holds of date/time values only.\<close>

fun has_isoformat :: "pyval \<Rightarrow> bool" where
  "has_isoformat (VDate t) = True"
| "has_isoformat v = False"

fun isoformat :: "pyval \<Rightarrow> ustr" where
  "isoformat (VDate t) = t"
| "isoformat v = []"

text \<open>The loop of \<^verbatim>\<open>serialize_doc\<close> over \<^verbatim>\<open>doc.items()\<close>, with the dictionary \<open>out\<close> built so far.\<close>

fun serialize_loop :: "builtins \<Rightarrow> doc \<Rightarrow> doc \<Rightarrow> doc" where
  "serialize_loop B out [] = out"
| "serialize_loop B out ((k, v) # rest) =
     (if k = u ''_id'' then serialize_loop B (dict_set out (u ''id'') (VStr (py_str B v))) rest
      else if has_isoformat v then serialize_loop B (dict_set out k (VStr (isoformat v))) rest
      else serialize_loop B (dict_set out k v) rest)"

definition serialize_doc :: "builtins \<Rightarrow> doc \<Rightarrow> doc" where
  "serialize_doc B d = serialize_loop B [] d"

text \<open>What the claims say serialization does, entry by entry.\<close>

definition serialize_value :: "pyval \<Rightarrow> pyval" where
  "serialize_value v = (if has_isoformat v then VStr (isoformat v) else v)"

definition serialize_entry :: "builtins \<Rightarrow> ustr \<times> pyval \<Rightarrow> ustr \<times> pyval" where
  "serialize_entry B kv =
     (if fst kv = u ''_id'' then (u ''id'', VStr (py_str B (snd kv)))
      else (fst kv, serialize_value (snd kv)))"

text \<open>A concrete choice of the two built-in parameters, exact on ASCII text, for evaluation.\<close>

definition ascii_lower :: "ustr \<Rightarrow> ustr" where
  "ascii_lower s = map (\<lambda>c. if 65 \<le> c \<and> c \<le> 90 then c + 32 else c) s"

fun ascii_str :: "pyval \<Rightarrow> ustr" where
  "ascii_str VNone = u ''None''"
| "ascii_str (VBool b) = (if b then u ''True'' else u ''False'')"
| "ascii_str v = u ''?''"

definition ascii_builtins :: builtins where
  "ascii_builtins = \<lparr> str_other = ascii_str, str_lower = ascii_lower \<rparr>"

section \<open>The document store\<close>

text \<open>
  Modelled from the spec: the module \<^verbatim>\<open>database\<close> (\<^verbatim>\<open>db\<close>, \<^verbatim>\<open>get_documents\<close>,
  \<^verbatim>\<open>create_document\<close>) is imported by the source and is not part of it. The spec
  describes it as a generic insert-one and find-all accessor over named collections,
  reachable only if a connection string is configured, in which every stored document
  receives a store-assigned unique identifier and a creation timestamp. The store is a
  record: whether it is reachable, the documents of each collection in insertion order,
  the number of insertions so far, and the identifier and timestamp the store assigns to
  the n-th insertion.
\<close>

record store =
  reachable :: bool
  colls :: "ustr \<Rightarrow> doc list"
  inserted :: nat
  assigns :: "nat \<Rightarrow> ustr \<times> ustr"

definition unavailable :: error where
  "unavailable = StoreError (u ''Database not available'')"

definition get_documents :: "store \<Rightarrow> ustr \<Rightarrow> error + doc list" where
  "get_documents st col = (if reachable st then Inr (colls st col) else Inl unavailable)"

definition create_document :: "store \<Rightarrow> ustr \<Rightarrow> doc \<Rightarrow> (error + ustr) \<times> store" where
  "create_document st col body =
     (if reachable st then
        (let (oid, stamp) = assigns st (inserted st);
             d = (u ''_id'', VOid oid) # body @ [(u ''created_at'', VDate stamp)]
         in (Inr oid,
             st\<lparr>colls := (colls st)(col := colls st col @ [d]), inserted := Suc (inserted st)\<rparr>))
      else (Inl unavailable, st))"

text \<open>The fields of a \<^verbatim>\<open>Chat\<close> model (\<^verbatim>\<open>schemas.py\<close>): \<^verbatim>\<open>role\<close> and \<^verbatim>\<open>message\<close>.\<close>

definition Chat :: "ustr \<Rightarrow> ustr \<Rightarrow> doc" where
  "Chat role message = [(u ''role'', VStr role), (u ''message'', VStr message)]"

section \<open>Listing endpoints\<close>

text \<open>
  \<^verbatim>\<open>list.sort(key=..., reverse=...)\<close> is a stable sort that compares keys with \<^verbatim>\<open><\<close>;
  with \<^verbatim>\<open>reverse=True\<close> it sorts the reversed list and reverses the result, which
  keeps equal keys in their original order.
\<close>

definition stable_sort :: "('a \<Rightarrow> 'k::linorder) \<Rightarrow> bool \<Rightarrow> 'a list \<Rightarrow> 'a list" where
  "stable_sort key reverse xs =
     (if reverse then rev (sort_key key (rev xs)) else sort_key key xs)"

text \<open>
  The sort keys of the listing endpoints contain \<^verbatim>\<open>x.get("created_at", "")\<close>, a value of
  any type. The model orders text against text, by code points. Sorting fewer than two
  documents compares nothing. Every other case is reported as \<^verbatim>\<open>TypeError\<close>: that is
  what Python raises when a text meets a value of another type, or when \<^verbatim>\<open>None\<close> or
  mappings are compared; Python also orders numbers among themselves, and lists among
  themselves, and does not compare the \<^verbatim>\<open>created_at\<close> of two projects whose
  \<^verbatim>\<open>featured\<close> flags differ: cases in which the model reports an error where
  Python returns a list. The theorems about sorting assume \<^verbatim>\<open>created_at\<close> to be
  a date/time value or a text where it is present, as it is in every document the
  application stores; there the model and Python agree.
\<close>

fun is_text :: "pyval \<Rightarrow> bool" where
  "is_text (VStr s) = True"
| "is_text v = False"

fun text_of :: "pyval \<Rightarrow> ustr" where
  "text_of (VStr s) = s"
| "text_of v = []"

definition created_key :: "doc \<Rightarrow> pyval" where
  "created_key x = dict_get x (u ''created_at'') (VStr [])"

definition is_featured :: "doc \<Rightarrow> bool" where
  "is_featured x = truthy (dict_get x (u ''featured'') (VBool False))"

definition featured_key :: "doc \<Rightarrow> bool" where
  "featured_key x = (\<not> is_featured x)"

definition sort_created ::
  "(doc \<Rightarrow> ustr \<Rightarrow> 'k::linorder) \<Rightarrow> bool \<Rightarrow> doc list \<Rightarrow> error + doc list" where
  "sort_created mk reverse docs =
     (if length docs \<le> 1 then Inr docs
      else if list_all (\<lambda>x. is_text (created_key x)) docs
      then Inr (stable_sort (\<lambda>x. mk x (text_of (created_key x))) reverse docs)
      else Inl TypeError)"

definition list_blog_posts :: "builtins \<Rightarrow> store \<Rightarrow> error + doc list" where
  "list_blog_posts B st =
     (case get_documents st (u ''blogpost'') of
        Inl e \<Rightarrow> Inl e
      | Inr docs \<Rightarrow> sort_created (\<lambda>x s. s) True (map (serialize_doc B) docs))"

definition list_case_studies :: "builtins \<Rightarrow> store \<Rightarrow> error + doc list" where
  "list_case_studies B st =
     (case get_documents st (u ''casestudy'') of
        Inl e \<Rightarrow> Inl e
      | Inr docs \<Rightarrow> sort_created (\<lambda>x s. s) True (map (serialize_doc B) docs))"

definition list_projects :: "builtins \<Rightarrow> store \<Rightarrow> error + doc list" where
  "list_projects B st =
     (case get_documents st (u ''project'') of
        Inl e \<Rightarrow> Inl e
      | Inr docs \<Rightarrow>
          sort_created (\<lambda>x s. (featured_key x, s)) False (map (serialize_doc B) docs))"

text \<open>
  A document as the store keeps it for the listing endpoints: its keys are distinct, and
  \<^verbatim>\<open>created_at\<close>, where present, is a date/time value or a text. \<open>created_text\<close>
  is the serialized creation timestamp of such a document, empty when it has none.
\<close>

definition stamped :: "doc \<Rightarrow> bool" where
  "stamped d \<longleftrightarrow>
     distinct (map fst d) \<and>
     (case map_of d (u ''created_at'') of
        None \<Rightarrow> True | Some (VDate t) \<Rightarrow> True | Some (VStr s) \<Rightarrow> True | Some v \<Rightarrow> False)"

definition created_text :: "doc \<Rightarrow> ustr" where
  "created_text d =
     (case map_of d (u ''created_at'') of
        Some (VDate t) \<Rightarrow> t | Some (VStr s) \<Rightarrow> s | _ \<Rightarrow> [])"

section \<open>Assistant chat\<close>

text \<open>The separator of the snippet parts: a space, the bullet U+2022, a space.\<close>

definition bullet_sep :: ustr where
  "bullet_sep = [32, 8226, 32]"

text \<open>
  The inner loop of \<^verbatim>\<open>fetch_titles\<close> over \<^verbatim>\<open>fields\<close>, with the list
  \<^verbatim>\<open>snippet_parts\<close> built so far. An f-string renders a text as itself and any
  other value as \<^verbatim>\<open>str\<close> does.
\<close>

fun snippet_parts :: "builtins \<Rightarrow> doc \<Rightarrow> ustr list \<Rightarrow> ustr list \<Rightarrow> ustr list" where
  "snippet_parts B s parts [] = parts"
| "snippet_parts B s parts (f # fs) =
     (case map_of s f of
        Some (VList val) \<Rightarrow>
          snippet_parts B s (parts @ [str_join (u '', '') (map (py_str B) val)]) fs
      | Some (VDict val) \<Rightarrow>
          snippet_parts B s
            (parts @ [str_join (u '', '') (map (\<lambda>(k, v). k @ u '': '' @ py_str B v) val)]) fs
      | Some (VStr val) \<Rightarrow> snippet_parts B s (parts @ [val]) fs
      | _ \<Rightarrow> snippet_parts B s parts fs)"

definition make_item :: "builtins \<Rightarrow> ustr list \<Rightarrow> doc \<Rightarrow> doc" where
  "make_item B flds d =
     (let s = serialize_doc B d;
          parts = snippet_parts B s [] flds
      in dict_set s (u ''snippet'')
           (VStr (str_join bullet_sep (map (take 200) (filter (\<lambda>p. p \<noteq> []) parts)))))"

definition fetch_titles :: "builtins \<Rightarrow> store \<Rightarrow> ustr \<Rightarrow> ustr list \<Rightarrow> error + doc list" where
  "fetch_titles B st col flds =
     (case get_documents st col of
        Inl e \<Rightarrow> Inl e
      | Inr docs \<Rightarrow> Inr (map (make_item B flds) docs))"

definition blog_fields :: "ustr list" where
  "blog_fields = [u ''title'', u ''tags'', u ''content'']"

definition case_fields :: "ustr list" where
  "case_fields = [u ''title'', u ''summary'', u ''impact'']"

definition proj_fields :: "ustr list" where
  "proj_fields = [u ''title'', u ''description'', u ''tech_stack'']"

definition build_corpus :: "builtins \<Rightarrow> store \<Rightarrow> error + doc list" where
  "build_corpus B st =
     (case fetch_titles B st (u ''blogpost'') blog_fields of
        Inl e \<Rightarrow> Inl e
      | Inr blogs \<Rightarrow>
     (case fetch_titles B st (u ''casestudy'') case_fields of
        Inl e \<Rightarrow> Inl e
      | Inr cases \<Rightarrow>
     (case fetch_titles B st (u ''project'') proj_fields of
        Inl e \<Rightarrow> Inl e
      | Inr projs \<Rightarrow> Inr (take 10 blogs @ take 10 cases @ take 10 projs))))"

text \<open>The set comprehension \<^verbatim>\<open>{t.lower() for t in user_msg.split() if len(t) > 2}\<close>.\<close>

definition tokens_of :: "builtins \<Rightarrow> ustr \<Rightarrow> ustr set" where
  "tokens_of B user_msg =
     str_lower B ` Set.filter (\<lambda>t. 2 < length t) (set (str_split user_msg))"

text \<open>
  \<^verbatim>\<open>a + b\<close> where one operand is known to be a text: the concatenation when the
  other is a text too, \<^verbatim>\<open>TypeError\<close> otherwise.
\<close>

fun text_add :: "pyval \<Rightarrow> pyval \<Rightarrow> error + pyval" where
  "text_add (VStr a) (VStr b) = Inr (VStr (a @ b))"
| "text_add a b = Inl TypeError"

text \<open>\<^verbatim>\<open>t in text\<close> on texts is the substring test, \<open>sublist\<close>.\<close>

definition score :: "builtins \<Rightarrow> ustr set \<Rightarrow> doc \<Rightarrow> error + nat" where
  "score B tokens item =
     (case text_add (dict_get item (u ''title'') (VStr [])) (VStr (u '' '')) of
        Inl e \<Rightarrow> Inl e
      | Inr t1 \<Rightarrow>
     (case text_add t1 (dict_get item (u ''snippet'') (VStr [])) of
        Inl e \<Rightarrow> Inl e
      | Inr t2 \<Rightarrow>
          (let text = str_lower B (text_of t2)
           in Inr (card (Set.filter (\<lambda>t. sublist t text) tokens)))))"

text \<open>
  \<^verbatim>\<open>sorted(corpus, key=score, reverse=True)[:3]\<close>: the key of every item is computed
  first, in order; the items are then sorted by their keys.
\<close>

definition select_best :: "builtins \<Rightarrow> ustr set \<Rightarrow> doc list \<Rightarrow> error + doc list" where
  "select_best B tokens corpus =
     (case collect (score B tokens) corpus of
        Inl e \<Rightarrow> Inl e
      | Inr keys \<Rightarrow> Inr (take 3 (map fst (stable_sort snd True (zip corpus keys)))))"

definition generic_reply :: ustr where
  "generic_reply =
     u ''Thanks for reaching out! I build production-grade web apps, AI features, and clean UI systems. ''
     @ u ''Ask about projects, case studies, or share your idea and I'' @ [8217]
     @ u ''ll outline an approach.''"

definition item_line :: "builtins \<Rightarrow> doc \<Rightarrow> ustr" where
  "item_line B item =
     u ''- '' @ py_str B (dict_get item (u ''title'') (VStr (u ''Untitled''))) @ u '': ''
     @ py_str B (dict_get item (u ''snippet'') (VStr []))"

definition make_reply :: "builtins \<Rightarrow> doc list \<Rightarrow> ustr" where
  "make_reply B best =
     (if best = [] then generic_reply
      else str_join [10]
             ([u ''Here are some highlights that match what you asked:'']
              @ map (item_line B) best
              @ [u ''Want a deeper dive or a quick estimate? I can outline a plan step-by-step.'']))"

text \<open>
  The endpoint returns the reply, or the error raised, together with the store as the
  request leaves it: what was written before an exception stays written.
\<close>

definition assistant_chat :: "builtins \<Rightarrow> store \<Rightarrow> ustr \<Rightarrow> (error + ustr) \<times> store" where
  "assistant_chat B st message =
     (let user_msg = str_strip message in
      if user_msg = [] then (Inl (HTTPException 400 (u ''Empty message'')), st)
      else
        (case create_document st (u ''chat'') (Chat (u ''user'') user_msg) of
           (Inl e, st1) \<Rightarrow> (Inl e, st1)
         | (Inr uid, st1) \<Rightarrow>
        (case build_corpus B st1 of
           Inl e \<Rightarrow> (Inl e, st1)
         | Inr corpus \<Rightarrow>
        (case select_best B (tokens_of B user_msg) corpus of
           Inl e \<Rightarrow> (Inl e, st1)
         | Inr best \<Rightarrow>
            (let reply = make_reply B best in
             (case create_document st1 (u ''chat'') (Chat (u ''assistant'') reply) of
                (Inl e, st2) \<Rightarrow> (Inl e, st2)
              | (Inr aid, st2) \<Rightarrow> (Inr reply, st2)))))))"

text \<open>
  The same steps in the words of the spec, for comparison with the code above: the text
  one field contributes to a snippet, the snippet of a document, the corpus assembled
  from the store, the text an item is matched against, and its score.
\<close>

definition field_part :: "builtins \<Rightarrow> doc \<Rightarrow> ustr \<Rightarrow> ustr list" where
  "field_part B s f =
     (case map_of s f of
        Some (VList val) \<Rightarrow> [str_join (u '', '') (map (py_str B) val)]
      | Some (VDict val) \<Rightarrow> [str_join (u '', '') (map (\<lambda>(k, v). k @ u '': '' @ py_str B v) val)]
      | Some (VStr val) \<Rightarrow> [val]
      | _ \<Rightarrow> [])"

definition snippet_of :: "builtins \<Rightarrow> ustr list \<Rightarrow> doc \<Rightarrow> ustr" where
  "snippet_of B flds d =
     str_join bullet_sep
       (map (take 200)
          (filter (\<lambda>p. p \<noteq> []) (concat (map (field_part B (serialize_doc B d)) flds))))"

definition corpus_items :: "builtins \<Rightarrow> store \<Rightarrow> doc list" where
  "corpus_items B st =
     map (make_item B blog_fields) (take 10 (colls st (u ''blogpost'')))
     @ map (make_item B case_fields) (take 10 (colls st (u ''casestudy'')))
     @ map (make_item B proj_fields) (take 10 (colls st (u ''project'')))"

definition item_text :: "builtins \<Rightarrow> doc \<Rightarrow> ustr" where
  "item_text B item =
     str_lower B (text_of (dict_get item (u ''title'') (VStr [])) @ u '' ''
                  @ text_of (dict_get item (u ''snippet'') (VStr [])))"

definition score_of :: "builtins \<Rightarrow> ustr set \<Rightarrow> doc \<Rightarrow> nat" where
  "score_of B tokens item = card {t \<in> tokens. sublist t (item_text B item)}"

text \<open>
  A stored document whose title can take part in scoring: its keys are distinct and
  \<^verbatim>\<open>title\<close>, where present, is a text (or a date/time value, which serialization
  turns into a text). Every schema of the application requires a text title.
\<close>

definition titled :: "doc \<Rightarrow> bool" where
  "titled d \<longleftrightarrow>
     distinct (map fst d) \<and>
     (case map_of d (u ''title'') of
        None \<Rightarrow> True | Some (VStr s) \<Rightarrow> True | Some (VDate t) \<Rightarrow> True | Some v \<Rightarrow> False)"

definition corpus_source :: "store \<Rightarrow> doc list" where
  "corpus_source st =
     take 10 (colls st (u ''blogpost'')) @ take 10 (colls st (u ''casestudy''))
     @ take 10 (colls st (u ''project''))"

text \<open>The Chat document the store holds after the n-th insertion stored a role and a message.\<close>

definition chat_doc :: "store \<Rightarrow> nat \<Rightarrow> ustr \<Rightarrow> ustr \<Rightarrow> doc" where
  "chat_doc st n role message =
     (u ''_id'', VOid (fst (assigns st n))) # Chat role message
     @ [(u ''created_at'', VDate (snd (assigns st n)))]"

section \<open>Diagnostics: \<^verbatim>\<open>GET /test\<close>\<close>

text \<open>
  The global \<^verbatim>\<open>db\<close> is \<^verbatim>\<open>None\<close> or a database handle. Of a handle the endpoint
  reads the attribute \<^verbatim>\<open>name\<close> (absent, present, or raising when read) and calls
  \<^verbatim>\<open>list_collection_names()\<close>, which returns the names or raises.
\<close>

record db_handle =
  name_attr :: "error + ustr option"
  list_collection_names :: "error + ustr list"

record response =
  backend :: ustr
  database :: ustr
  database_url :: "ustr option"
  database_name :: "ustr option"
  connection_status :: ustr
  collections :: "ustr list"

definition ok_mark :: ustr where "ok_mark = [9989]"
definition no_mark :: ustr where "no_mark = [10060]"
definition warn_mark :: ustr where "warn_mark = [9888, 65039]"

definition initial_response :: response where
  "initial_response =
     \<lparr> backend = ok_mark @ u '' Running'',
       database = no_mark @ u '' Not Available'',
       database_url = None,
       database_name = None,
       connection_status = u ''Not Connected'',
       collections = [] \<rparr>"

text \<open>
  The inner \<^verbatim>\<open>try\<close>: list the collections, keep the first ten; on an exception put its
  text, cut at 50 characters, into the status.
\<close>

definition probe_collections :: "db_handle \<Rightarrow> response \<Rightarrow> response" where
  "probe_collections h r =
     (case list_collection_names h of
        Inr cs \<Rightarrow> r\<lparr>collections := take 10 cs, database := ok_mark @ u '' Connected & Working''\<rparr>
      | Inl e \<Rightarrow>
          r\<lparr>database := warn_mark @ u ''  Connected but Error: '' @ take 50 (error_text e)\<rparr>)"

text \<open>
  The body of the outer \<^verbatim>\<open>try\<close>: it returns the response as far as it was filled
  in, and the exception if one escaped.
\<close>

definition test_body :: "db_handle option \<Rightarrow> ustr option \<Rightarrow> response \<Rightarrow> error option \<times> response" where
  "test_body db url r =
     (case db of
        None \<Rightarrow> (None, r\<lparr>database := warn_mark @ u ''  Available but not initialized''\<rparr>)
      | Some h \<Rightarrow>
          (let r1 = r\<lparr>database := ok_mark @ u '' Available'',
                       database_url :=
                         Some (if url \<noteq> None \<and> url \<noteq> Some [] then ok_mark @ u '' Set''
                               else no_mark @ u '' Not Set'')\<rparr>
           in (case name_attr h of
                 Inl e \<Rightarrow> (Some e, r1)
               | Inr n \<Rightarrow>
                   (let r2 = r1\<lparr>database_name :=
                                   Some (case n of Some nm \<Rightarrow> nm | None \<Rightarrow> ok_mark @ u '' Connected''),
                                 connection_status := u ''Connected''\<rparr>
                    in (None, probe_collections h r2)))))"

definition test_database :: "db_handle option \<Rightarrow> ustr option \<Rightarrow> error + response" where
  "test_database db url =
     (case test_body db url initial_response of
        (None, r) \<Rightarrow> Inr r
      | (Some e, r) \<Rightarrow> Inr (r\<lparr>database := no_mark @ u '' Error: '' @ take 50 (error_text e)\<rparr>))"

section \<open>Example data\<close>

text \<open>A reachable store with no documents, and the identifiers and timestamps it will assign.\<close>

definition demo_assigns :: "nat \<Rightarrow> ustr \<times> ustr" where
  "demo_assigns n = (u ''oid'' @ [48 + n], u ''2024-06-0'' @ [49 + n])"

definition empty_store :: store where
  "empty_store = \<lparr> reachable = True, colls = (\<lambda>c. []), inserted = 0, assigns = demo_assigns \<rparr>"

text \<open>A store with a few documents of each kind.\<close>

definition demo_blogs :: "doc list" where
  "demo_blogs =
     [[(u ''_id'', VOid (u ''b1'')), (u ''title'', VStr (u ''Typed queues'')),
       (u ''content'', VStr (u ''Queues in Rust'')), (u ''tags'', VList [VStr (u ''rust''), VStr (u ''async'')]),
       (u ''created_at'', VDate (u ''2024-01-05T09:00:00''))],
      [(u ''_id'', VOid (u ''b2'')), (u ''title'', VStr (u ''Notes'')),
       (u ''content'', VStr (u ''Short notes'')), (u ''tags'', VList [])],
      [(u ''_id'', VOid (u ''b3'')), (u ''title'', VStr (u ''Caching'')),
       (u ''content'', VStr (u ''Cache keys'')), (u ''tags'', VList [VStr (u ''web'')]),
       (u ''created_at'', VDate (u ''2024-02-07T18:30:00''))],
      [(u ''_id'', VOid (u ''b4'')), (u ''title'', VStr (u ''Forms'')),
       (u ''content'', VStr (u ''Form state'')), (u ''tags'', VList [VStr (u ''ui'')]),
       (u ''created_at'', VDate (u ''2024-01-05T09:00:00''))]]"

definition demo_cases :: "doc list" where
  "demo_cases =
     [[(u ''_id'', VOid (u ''c1'')), (u ''title'', VStr (u ''Checkout'')),
       (u ''summary'', VStr (u ''Faster checkout'')), (u ''impact'', VStr (u ''Fewer drops'')),
       (u ''links'', VDict [(u ''demo'', VStr (u ''https://x.test''))]),
       (u ''created_at'', VDate (u ''2024-03-01T08:00:00''))],
      [(u ''_id'', VOid (u ''c2'')), (u ''title'', VStr (u ''Search'')),
       (u ''summary'', VStr (u ''Search rewrite'')), (u ''impact'', VStr (u ''Rust core'')),
       (u ''links'', VDict []),
       (u ''created_at'', VDate (u ''2024-04-01T08:00:00''))]]"

definition demo_projects :: "doc list" where
  "demo_projects =
     [[(u ''_id'', VOid (u ''p1'')), (u ''title'', VStr (u ''Ledger'')),
       (u ''description'', VStr (u ''Accounting tool'')), (u ''tech_stack'', VList [VStr (u ''rust'')]),
       (u ''featured'', VBool False), (u ''created_at'', VDate (u ''2024-01-01T10:00:00''))],
      [(u ''_id'', VOid (u ''p2'')), (u ''title'', VStr (u ''Atlas'')),
       (u ''description'', VStr (u ''Map tiles'')), (u ''tech_stack'', VList [VStr (u ''go'')]),
       (u ''featured'', VBool True), (u ''created_at'', VDate (u ''2024-03-01T10:00:00''))],
      [(u ''_id'', VOid (u ''p3'')), (u ''title'', VStr (u ''Relay'')),
       (u ''description'', VStr (u ''Chat relay'')), (u ''tech_stack'', VList [VStr (u ''elixir'')]),
       (u ''featured'', VBool True), (u ''created_at'', VDate (u ''2024-02-01T10:00:00''))],
      [(u ''_id'', VOid (u ''p4'')), (u ''title'', VStr (u ''Quill'')),
       (u ''description'', VStr (u ''Editor'')), (u ''tech_stack'', VList []),
       (u ''featured'', VBool False), (u ''created_at'', VDate (u ''2024-01-01T10:00:00''))]]"

definition demo_store :: store where
  "demo_store =
     \<lparr> reachable = True,
       colls = (\<lambda>c. if c = u ''blogpost'' then demo_blogs
                   else if c = u ''casestudy'' then demo_cases
                   else if c = u ''project'' then demo_projects else []),
       inserted = 0,
       assigns = demo_assigns \<rparr>"

text \<open>A store holding a single project.\<close>

definition small_store :: store where
  "small_store =
     \<lparr> reachable = True,
       colls = (\<lambda>c. if c = u ''project''
                   then [[(u ''_id'', VOid (u ''p2'')), (u ''title'', VStr (u ''Atlas'')),
                          (u ''description'', VStr (u ''Map tiles'')),
                          (u ''tech_stack'', VList [VStr (u ''go'')]),
                          (u ''featured'', VBool True)]]
                   else []),
       inserted = 0,
       assigns = demo_assigns \<rparr>"

text \<open>A store holding four short projects, for ranking.\<close>

definition rank_store :: store where
  "rank_store =
     \<lparr> reachable = True,
       colls = (\<lambda>c. if c = u ''project''
                   then [[(u ''_id'', VOid (u ''p1'')), (u ''title'', VStr (u ''Ledger'')),
                          (u ''description'', VStr (u ''rust''))],
                         [(u ''_id'', VOid (u ''p2'')), (u ''title'', VStr (u ''Atlas'')),
                          (u ''description'', VStr (u ''go''))],
                         [(u ''_id'', VOid (u ''p3'')), (u ''title'', VStr (u ''Relay'')),
                          (u ''description'', VStr (u ''elixir''))],
                         [(u ''_id'', VOid (u ''p4'')), (u ''title'', VStr (u ''Quill'')),
                          (u ''description'', VStr (u ''Rust''))]]
                   else []),
       inserted = 0,
       assigns = demo_assigns \<rparr>"

section \<open>Serialization: properties\<close>

lemma u_eq_iff: "u a = u b \<longleftrightarrow> a = b"
proof -
  have "inj (of_char :: char \<Rightarrow> nat)" by (rule inj_of_char)
  then show ?thesis by (simp add: u_def inj_map_eq_map)
qed

text \<open>Comparisons of literals, for evaluation.\<close>

lemma u_le_iff: "u a \<le> u b \<longleftrightarrow> map of_char a \<le> (map of_char b :: nat list)"
  by (simp add: u_def)

lemma u_less_iff: "u a < u b \<longleftrightarrow> map of_char a < (map of_char b :: nat list)"
  by (simp add: u_def)

lemma u_le_Nil: "u a \<le> [] \<longleftrightarrow> a = []"
  by (cases a) (simp_all add: u_def)

lemma u_less_Nil: "[] < u a \<longleftrightarrow> a \<noteq> []"
  by (cases a) (simp_all add: u_def)

lemma u_Nil_iff: "u a = [] \<longleftrightarrow> a = []" "[] = u a \<longleftrightarrow> a = []"
  by (auto simp: u_def)

lemmas u_cmp = u_eq_iff u_Nil_iff u_le_iff u_less_iff u_le_Nil u_less_Nil

lemma dict_set_append_fresh:
  "k \<notin> fst ` set out \<Longrightarrow> dict_set out k v = out @ [(k, v)]"
  by (induction out) (auto simp: dict_set_def)

lemma serialize_loop_fresh:
  "distinct (map fst out @ map (\<lambda>kv. fst (serialize_entry B kv)) d)
   \<Longrightarrow> serialize_loop B out d = out @ map (serialize_entry B) d"
proof (induction d arbitrary: out)
  case Nil
  then show ?case by simp
next
  case (Cons kv d)
  obtain k v where kv: "kv = (k, v)" by (cases kv)
  let ?e = "serialize_entry B kv"
  from Cons.prems have fresh: "fst ?e \<notin> fst ` set out"
    by auto
  have step: "serialize_loop B out (kv # d) = serialize_loop B (dict_set out (fst ?e) (snd ?e)) d"
    by (simp add: kv serialize_entry_def serialize_value_def)
  have app: "dict_set out (fst ?e) (snd ?e) = out @ [?e]"
    using dict_set_append_fresh [OF fresh] by simp
  from Cons.prems have "distinct (map fst (out @ [?e]) @ map (\<lambda>kv. fst (serialize_entry B kv)) d)"
    by auto
  from Cons.IH [OF this] show ?case
    by (simp add: step app)
qed

lemma serialize_entry_key:
  "fst (serialize_entry B kv) = (if fst kv = u ''_id'' then u ''id'' else fst kv)"
  by (simp add: serialize_entry_def)

lemma serialize_keys_distinct:
  assumes "distinct (map fst d)"
    and "u ''_id'' \<in> fst ` set d \<longrightarrow> u ''id'' \<notin> fst ` set d"
  shows "distinct (map (\<lambda>kv. fst (serialize_entry B kv)) d)"
proof -
  let ?g = "\<lambda>k. if k = u ''_id'' then u ''id'' else k"
  have inj: "inj_on ?g (set (map fst d))"
  proof (rule inj_onI)
    fix x y
    assume x: "x \<in> set (map fst d)" and y: "y \<in> set (map fst d)" and eq: "?g x = ?g y"
    show "x = y"
    proof (cases "x = u ''_id''")
      case True
      with x assms(2) have "u ''id'' \<notin> set (map fst d)" by simp
      with y have "y \<noteq> u ''id''" by blast
      with True eq show ?thesis by (simp split: if_splits)
    next
      case False
      show ?thesis
      proof (cases "y = u ''_id''")
        case True
        with y assms(2) have "u ''id'' \<notin> set (map fst d)" by simp
        with x have "x \<noteq> u ''id''" by blast
        with True False eq show ?thesis by (simp split: if_splits)
      next
        case False
        with \<open>x \<noteq> u ''_id''\<close> eq show ?thesis by simp
      qed
    qed
  qed
  have eq: "map (\<lambda>kv. fst (serialize_entry B kv)) d = map ?g (map fst d)"
    by (simp add: serialize_entry_key)
  show ?thesis
    unfolding eq by (rule iffD2 [OF distinct_map]) (rule conjI [OF assms(1) inj])
qed

lemma serialize_doc_map:
  assumes "distinct (map fst d)"
    and "u ''_id'' \<in> fst ` set d \<longrightarrow> u ''id'' \<notin> fst ` set d"
  shows "serialize_doc B d = map (serialize_entry B) d"
  using serialize_loop_fresh [of "[]" B d] serialize_keys_distinct [OF assms]
  by (simp add: serialize_doc_def)

text \<open>
  Claim C9. A stored document has distinct keys and no key \<^verbatim>\<open>id\<close> of its own
  beside \<^verbatim>\<open>_id\<close>: the store assigns \<^verbatim>\<open>_id\<close>, and no schema of the
  application declares a field \<^verbatim>\<open>id\<close>. For every such document serialization
  keeps the entries in order and maps each one by itself: the entry \<^verbatim>\<open>_id\<close>
  becomes the entry \<^verbatim>\<open>id\<close> holding the string form of the identifier, a value
  with an ISO-format conversion becomes its ISO-8601 text under the same key, and every
  other key and value passes through unchanged, so that no key other than
  \<^verbatim>\<open>_id\<close> is renamed or dropped.
\<close>

theorem serialize_doc_entrywise:
  assumes "distinct (map fst d)"
    and "u ''_id'' \<in> fst ` set d \<longrightarrow> u ''id'' \<notin> fst ` set d"
  shows "serialize_doc B d =
     map (\<lambda>(k, v). if k = u ''_id'' then (u ''id'', VStr (py_str B v))
                    else if has_isoformat v then (k, VStr (isoformat v))
                    else (k, v)) d"
proof -
  have "serialize_entry B = (\<lambda>(k, v). if k = u ''_id'' then (u ''id'', VStr (py_str B v))
                    else if has_isoformat v then (k, VStr (isoformat v))
                    else (k, v))"
    by (auto simp: serialize_entry_def serialize_value_def fun_eq_iff)
  with serialize_doc_map [OF assms] show ?thesis by simp
qed

theorem serialize_doc_entrywise_witness:
  "distinct (map fst [(u ''_id'', VOid (u ''65a1'')), (u ''title'', VStr (u ''Hi'')),
                      (u ''created_at'', VDate (u ''2024-01-02T03:04:05''))])
   \<and> serialize_doc ascii_builtins
        [(u ''_id'', VOid (u ''65a1'')), (u ''title'', VStr (u ''Hi'')),
         (u ''created_at'', VDate (u ''2024-01-02T03:04:05''))]
      = [(u ''id'', VStr (u ''65a1'')), (u ''title'', VStr (u ''Hi'')),
         (u ''created_at'', VStr (u ''2024-01-02T03:04:05''))]"
proof -
  let ?d = "[(u ''_id'', VOid (u ''65a1'')), (u ''title'', VStr (u ''Hi'')),
             (u ''created_at'', VDate (u ''2024-01-02T03:04:05''))]"
  have d: "distinct (map fst ?d)" by (simp add: u_eq_iff)
  have n: "u ''_id'' \<in> fst ` set ?d \<longrightarrow> u ''id'' \<notin> fst ` set ?d" by (simp add: u_eq_iff)
  show ?thesis
    using d serialize_doc_entrywise [OF d n, of ascii_builtins] by (simp add: u_eq_iff)
qed

section \<open>Assistant chat: blank messages\<close>

lemma str_strip_empty_iff: "str_strip s = [] \<longleftrightarrow> (\<forall>c\<in>set s. is_space c)"
proof
  assume "str_strip s = []"
  then have all: "\<forall>c\<in>set (dropWhile is_space s). is_space c"
    by (simp add: str_strip_def dropWhile_eq_Nil_conv)
  have "dropWhile is_space s = []"
  proof (rule ccontr)
    assume ne: "dropWhile is_space s \<noteq> []"
    then have "\<not> is_space (hd (dropWhile is_space s))" by (rule hd_dropWhile)
    moreover from ne have "hd (dropWhile is_space s) \<in> set (dropWhile is_space s)" by simp
    ultimately show False using all by blast
  qed
  then show "\<forall>c\<in>set s. is_space c" by (simp add: dropWhile_eq_Nil_conv)
next
  assume "\<forall>c\<in>set s. is_space c"
  then show "str_strip s = []" by (auto simp: str_strip_def dest: set_dropWhileD)
qed

text \<open>
  Claim C3. A request to \<^verbatim>\<open>POST /assistant/chat\<close> whose message is empty or consists
  only of whitespace fails with the client error 400, and the store is left as it was:
  no Chat document is created.
\<close>

theorem assistant_chat_rejects_blank:
  assumes "\<forall>c\<in>set message. is_space c"
  shows "assistant_chat B st message = (Inl (HTTPException 400 (u ''Empty message'')), st)"
proof -
  from assms have "str_strip message = []" by (simp add: str_strip_empty_iff)
  then show ?thesis by (simp add: assistant_chat_def)
qed

theorem assistant_chat_rejects_blank_witness:
  "is_space 32 \<and> is_space 9 \<and> is_space 10 \<and> is_space 160
   \<and> assistant_chat ascii_builtins empty_store [32, 9, 10, 160]
       = (Inl (HTTPException 400 (u ''Empty message'')), empty_store)
   \<and> assistant_chat ascii_builtins empty_store []
       = (Inl (HTTPException 400 (u ''Empty message'')), empty_store)"
proof -
  have h: "\<forall>c\<in>set [32, 9, 10, 160]. is_space c" by (simp add: is_space_def)
  have e: "\<forall>c\<in>set ([]::nat list). is_space c" by simp
  show ?thesis
    using h assistant_chat_rejects_blank [OF h, of ascii_builtins empty_store]
      assistant_chat_rejects_blank [OF e, of ascii_builtins empty_store] by simp
qed

section \<open>Diagnostics: properties\<close>

text \<open>
  Claim C8. \<^verbatim>\<open>GET /test\<close> never raises: for every state of the database handle it
  returns a response. An exception of the store is turned into status text holding the
  first 50 characters of its message, and the collection names reported when the store
  answers are the first ten at most.
\<close>

theorem test_database_never_raises:
  "\<exists>r. test_database db url = Inr r
     \<and> length (collections r) \<le> 10
     \<and> (\<forall>h n cs. db = Some h \<and> name_attr h = Inr n \<and> list_collection_names h = Inr cs
          \<longrightarrow> collections r = take 10 cs \<and> database r = ok_mark @ u '' Connected & Working'')
     \<and> (\<forall>h n e. db = Some h \<and> name_attr h = Inr n \<and> list_collection_names h = Inl e
          \<longrightarrow> collections r = []
              \<and> database r = warn_mark @ u ''  Connected but Error: '' @ take 50 (error_text e))
     \<and> (\<forall>h e. db = Some h \<and> name_attr h = Inl e
          \<longrightarrow> collections r = []
              \<and> database r = no_mark @ u '' Error: '' @ take 50 (error_text e))
     \<and> (db = None \<longrightarrow> collections r = []
              \<and> database r = warn_mark @ u ''  Available but not initialized'')"
proof (cases db)
  case None
  then show ?thesis
    by (simp add: test_database_def test_body_def initial_response_def)
next
  case (Some h)
  show ?thesis
  proof (cases "name_attr h")
    case (Inl e)
    with Some show ?thesis
      by (simp add: test_database_def test_body_def initial_response_def)
  next
    case (Inr n)
    show ?thesis
    proof (cases "list_collection_names h")
      case (Inl e)
      with Some Inr show ?thesis
        by (simp add: test_database_def test_body_def initial_response_def probe_collections_def)
    next
      case cs: (Inr cs)
      with Some Inr show ?thesis
        by (simp add: test_database_def test_body_def initial_response_def probe_collections_def)
    qed
  qed
qed

theorem test_database_never_raises_witness:
  "(\<exists>r. test_database
          (Some \<lparr>name_attr = Inr (Some (u ''app'')),
                 list_collection_names = Inl (StoreError (replicate 60 120))\<rparr>) None = Inr r
        \<and> collections r = []
        \<and> database r = warn_mark @ u ''  Connected but Error: '' @ replicate 50 120)
   \<and> (\<exists>r. test_database
          (Some \<lparr>name_attr = Inr None,
                 list_collection_names = Inr (map (\<lambda>n. [97 + n]) [0..<12])\<rparr>)
          (Some (u ''mongodb://h'')) = Inr r
        \<and> length (collections r) = 10
        \<and> database r = ok_mark @ u '' Connected & Working'')
   \<and> (\<exists>r. test_database
          (Some \<lparr>name_attr = Inl (StoreError (replicate 51 120)),
                 list_collection_names = Inr []\<rparr>) None = Inr r
        \<and> database r = no_mark @ u '' Error: '' @ replicate 50 120)"
proof -
  have a: "take 50 (replicate 60 (120::nat)) = replicate 50 120" by simp
  have b: "take 50 (replicate 51 (120::nat)) = replicate 50 120" by simp
  have c: "length (take 10 (map (\<lambda>n. [97 + n]) [0..<12])) = 10" by simp
  have 1: "\<exists>r. test_database
          (Some \<lparr>name_attr = Inr (Some (u ''app'')),
                 list_collection_names = Inl (StoreError (replicate 60 120))\<rparr>) None = Inr r
        \<and> collections r = []
        \<and> database r = warn_mark @ u ''  Connected but Error: '' @ replicate 50 120"
    using test_database_never_raises
        [of "Some \<lparr>name_attr = Inr (Some (u ''app'')),
                   list_collection_names = Inl (StoreError (replicate 60 120))\<rparr>" None] a
    by auto
  have 2: "\<exists>r. test_database
          (Some \<lparr>name_attr = Inr None,
                 list_collection_names = Inr (map (\<lambda>n. [97 + n]) [0..<12])\<rparr>)
          (Some (u ''mongodb://h'')) = Inr r
        \<and> length (collections r) = 10
        \<and> database r = ok_mark @ u '' Connected & Working''"
    using test_database_never_raises
        [of "Some \<lparr>name_attr = Inr None,
                   list_collection_names = Inr (map (\<lambda>n. [97 + n]) [0..<12])\<rparr>"
            "Some (u ''mongodb://h'')"] c
    by auto
  have 3: "\<exists>r. test_database
          (Some \<lparr>name_attr = Inl (StoreError (replicate 51 120)),
                 list_collection_names = Inr []\<rparr>) None = Inr r
        \<and> database r = no_mark @ u '' Error: '' @ replicate 50 120"
    using test_database_never_raises
        [of "Some \<lparr>name_attr = Inl (StoreError (replicate 51 120)),
                   list_collection_names = Inr []\<rparr>" None] b
    by auto
  from 1 2 3 show ?thesis by blast
qed

section \<open>Listing endpoints: properties\<close>

lemma stable_sort_mset: "mset (stable_sort key r xs) = mset xs"
  by (simp add: stable_sort_def)

lemma stable_sort_keeps_order:
  "filter (\<lambda>x. key x = k) (stable_sort key r xs) = filter (\<lambda>x. key x = k) xs"
proof (cases r)
  case True
  have "filter (\<lambda>x. key x = k) (rev (sort_key key (rev xs)))
      = rev (filter (\<lambda>x. key x = k) (sort_key key (rev xs)))"
    by (simp add: rev_filter)
  also have "\<dots> = rev (filter (\<lambda>x. key x = k) (rev xs))"
    by (simp only: sort_key_stable)
  also have "\<dots> = filter (\<lambda>x. key x = k) xs"
    by (simp add: rev_filter)
  finally show ?thesis using True by (simp add: stable_sort_def)
next
  case False
  then show ?thesis by (simp add: stable_sort_def sort_key_stable)
qed

lemma stable_sort_ascending: "sorted (map key (stable_sort key False xs))"
  by (simp add: stable_sort_def)

lemma stable_sort_descending:
  "sorted_wrt (\<lambda>a b. key b \<le> key a) (stable_sort key True xs)"
proof -
  have "sorted (map key (sort_key key (rev xs)))" by simp
  then have "sorted_wrt (\<lambda>a b. key a \<le> key b) (sort_key key (rev xs))"
    by (simp add: sorted_map)
  then show ?thesis
    by (simp add: stable_sort_def sorted_wrt_rev)
qed

lemma map_of_serialize_loop:
  assumes "distinct (map fst d)" and "k \<noteq> u ''id''" and "k \<noteq> u ''_id''"
  shows "map_of (serialize_loop B out d) k =
     (case map_of d k of None \<Rightarrow> map_of out k | Some v \<Rightarrow> Some (serialize_value v))"
  using assms(1)
proof (induction d arbitrary: out)
  case Nil
  then show ?case by simp
next
  case (Cons kv d)
  obtain k' v' where kv: "kv = (k', v')" by (cases kv)
  from Cons.prems have dist: "distinct (map fst d)" and fresh: "k' \<notin> fst ` set d"
    by (auto simp: kv)
  show ?case
  proof (cases "k' = k")
    case True
    with fresh have "map_of d k = None" by (simp add: map_of_eq_None_iff)
    with True assms(2,3) show ?thesis
      by (simp add: kv Cons.IH [OF dist] dict_set_def update_conv' serialize_value_def)
  next
    case False
    with assms(2,3) show ?thesis
      by (simp add: kv Cons.IH [OF dist] dict_set_def update_conv' split: option.splits)
  qed
qed

lemma created_key_serialize:
  assumes "stamped d"
  shows "created_key (serialize_doc B d) = VStr (created_text d)"
proof -
  have ne: "u ''created_at'' \<noteq> u ''id''" "u ''created_at'' \<noteq> u ''_id''"
    by (simp_all add: u_def)
  from assms have dist: "distinct (map fst d)" by (simp add: stamped_def)
  have ser: "map_of (serialize_doc B d) (u ''created_at'') =
     (case map_of d (u ''created_at'') of None \<Rightarrow> None | Some v \<Rightarrow> Some (serialize_value v))"
    using map_of_serialize_loop [OF dist ne, of B "[]"]
    by (simp add: serialize_doc_def split: option.splits)
  then show ?thesis
  proof (cases "map_of d (u ''created_at'')")
    case None
    then show ?thesis using ser by (simp add: created_key_def dict_get_def created_text_def)
  next
    case (Some v)
    with assms have "(\<exists>t. v = VDate t) \<or> (\<exists>s. v = VStr s)"
      by (cases v) (simp_all add: stamped_def)
    with Some ser show ?thesis
      by (auto simp: created_key_def dict_get_def created_text_def serialize_value_def)
  qed
qed

lemma sort_created_text:
  assumes "\<forall>x\<in>set xs. is_text (created_key x)"
  shows "sort_created mk r xs = Inr (stable_sort (\<lambda>x. mk x (text_of (created_key x))) r xs)"
proof (cases "length xs \<le> 1")
  case True
  then have "xs = [] \<or> (\<exists>x. xs = [x])"
    by (cases xs) (auto simp: length_Suc_conv)
  then show ?thesis using True
    by (auto simp: sort_created_def stable_sort_def)
next
  case False
  with assms show ?thesis
    by (simp add: sort_created_def list_all_iff)
qed

lemma key_of_serialized:
  assumes "\<forall>d\<in>set docs. stamped d"
  shows "\<forall>x\<in>set (map (serialize_doc B) docs). is_text (created_key x)"
  using assms by (auto simp: created_key_serialize)

text \<open>
  Claim C2. \<^verbatim>\<open>GET /blog\<close> and \<^verbatim>\<open>GET /case-studies\<close> return the serialized
  documents of their collection, each one once, in descending order of the text under
  \<^verbatim>\<open>created_at\<close> (compared as text, the empty text standing for a missing field),
  documents with equal keys in the order the store returned them. The key of a
  serialized document is the serialized creation timestamp of the stored one.
\<close>

theorem listings_descending_by_created:
  assumes "reachable st"
    and "\<forall>d\<in>set (colls st (u ''blogpost'')). stamped d"
    and "\<forall>d\<in>set (colls st (u ''casestudy'')). stamped d"
  shows "\<exists>blogs cases.
      list_blog_posts B st = Inr blogs \<and> list_case_studies B st = Inr cases
    \<and> mset blogs = mset (map (serialize_doc B) (colls st (u ''blogpost'')))
    \<and> mset cases = mset (map (serialize_doc B) (colls st (u ''casestudy'')))
    \<and> sorted_wrt (\<lambda>a b. text_of (created_key b) \<le> text_of (created_key a)) blogs
    \<and> sorted_wrt (\<lambda>a b. text_of (created_key b) \<le> text_of (created_key a)) cases
    \<and> (\<forall>k. filter (\<lambda>x. text_of (created_key x) = k) blogs
           = filter (\<lambda>x. text_of (created_key x) = k) (map (serialize_doc B) (colls st (u ''blogpost''))))
    \<and> (\<forall>k. filter (\<lambda>x. text_of (created_key x) = k) cases
           = filter (\<lambda>x. text_of (created_key x) = k) (map (serialize_doc B) (colls st (u ''casestudy''))))
    \<and> (\<forall>d\<in>set (colls st (u ''blogpost'')) \<union> set (colls st (u ''casestudy'')).
           created_key (serialize_doc B d) = VStr (created_text d))"
proof -
  let ?key = "\<lambda>x. text_of (created_key x)"
  let ?bs = "map (serialize_doc B) (colls st (u ''blogpost''))"
  let ?cs = "map (serialize_doc B) (colls st (u ''casestudy''))"
  have b: "list_blog_posts B st = Inr (stable_sort ?key True ?bs)"
    using assms(1) sort_created_text [OF key_of_serialized [OF assms(2)], of "\<lambda>x s. s" True B]
    by (simp add: list_blog_posts_def get_documents_def)
  have c: "list_case_studies B st = Inr (stable_sort ?key True ?cs)"
    using assms(1) sort_created_text [OF key_of_serialized [OF assms(3)], of "\<lambda>x s. s" True B]
    by (simp add: list_case_studies_def get_documents_def)
  have k: "\<forall>d\<in>set (colls st (u ''blogpost'')) \<union> set (colls st (u ''casestudy'')).
           created_key (serialize_doc B d) = VStr (created_text d)"
    using assms(2,3) by (auto simp: created_key_serialize)
  show ?thesis
    apply (rule exI [of _ "stable_sort ?key True ?bs"])
    apply (rule exI [of _ "stable_sort ?key True ?cs"])
    apply (intro conjI allI)
            apply (rule b)
           apply (rule c)
          apply (rule stable_sort_mset)
         apply (rule stable_sort_mset)
        apply (rule stable_sort_descending)
       apply (rule stable_sort_descending)
      apply (rule stable_sort_keeps_order)
     apply (rule stable_sort_keeps_order)
    apply (rule k)
    done
qed


text \<open>
  Claim C1. \<^verbatim>\<open>GET /projects\<close> returns the serialized project documents, each one
  once, featured ones before the others and, among documents with the same flag, in
  ascending order of the text under \<^verbatim>\<open>created_at\<close> (the empty text standing for
  a missing field), documents with equal keys in the order the store returned them.
\<close>

theorem projects_featured_then_created:
  assumes "reachable st"
    and "\<forall>d\<in>set (colls st (u ''project'')). stamped d"
  shows "\<exists>out.
      list_projects B st = Inr out
    \<and> mset out = mset (map (serialize_doc B) (colls st (u ''project'')))
    \<and> sorted_wrt (\<lambda>a b. (is_featured a \<and> \<not> is_featured b) \<or>
                         (is_featured a = is_featured b \<and>
                          text_of (created_key a) \<le> text_of (created_key b))) out
    \<and> (\<forall>f k. filter (\<lambda>x. is_featured x = f \<and> text_of (created_key x) = k) out
           = filter (\<lambda>x. is_featured x = f \<and> text_of (created_key x) = k)
               (map (serialize_doc B) (colls st (u ''project''))))
    \<and> (\<forall>d\<in>set (colls st (u ''project'')).
           created_key (serialize_doc B d) = VStr (created_text d))"
proof -
  let ?key = "\<lambda>x. (featured_key x, text_of (created_key x))"
  let ?ps = "map (serialize_doc B) (colls st (u ''project''))"
  let ?out = "stable_sort ?key False ?ps"
  have p: "list_projects B st = Inr ?out"
    using assms(1)
      sort_created_text [OF key_of_serialized [OF assms(2)], of "\<lambda>x s. (featured_key x, s)" False B]
    by (simp add: list_projects_def get_documents_def)
  have "sorted_wrt (\<lambda>a b. ?key a \<le> ?key b) ?out"
    using stable_sort_ascending [of ?key ?ps] by (simp only: sorted_map)
  then have s: "sorted_wrt (\<lambda>a b. (is_featured a \<and> \<not> is_featured b) \<or>
                         (is_featured a = is_featured b \<and>
                          text_of (created_key a) \<le> text_of (created_key b))) ?out"
    by (rule sorted_wrt_mono_rel [rotated]) (auto simp: less_eq_prod_def featured_key_def)
  have f: "filter (\<lambda>x. is_featured x = f \<and> text_of (created_key x) = k) ?out
           = filter (\<lambda>x. is_featured x = f \<and> text_of (created_key x) = k) ?ps" for f k
  proof -
    have eq: "(\<lambda>x. is_featured x = f \<and> text_of (created_key x) = k) = (\<lambda>x. ?key x = (\<not> f, k))"
      by (auto simp: featured_key_def fun_eq_iff)
    show ?thesis unfolding eq by (rule stable_sort_keeps_order)
  qed
  have k: "\<forall>d\<in>set (colls st (u ''project'')).
           created_key (serialize_doc B d) = VStr (created_text d)"
    using assms(2) by (auto simp: created_key_serialize)
  show ?thesis
    apply (rule exI [of _ ?out])
    apply (intro conjI allI)
        apply (rule p)
       apply (rule stable_sort_mset)
      apply (rule s)
     apply (rule f)
    apply (rule k)
    done
qed

lemma demo_reachable: "reachable demo_store"
  by (simp add: demo_store_def)

lemma demo_stamped:
  "\<forall>d\<in>set (colls demo_store (u ''blogpost'')). stamped d"
  "\<forall>d\<in>set (colls demo_store (u ''casestudy'')). stamped d"
  "\<forall>d\<in>set (colls demo_store (u ''project'')). stamped d"
  by (simp_all add: demo_store_def demo_blogs_def demo_cases_def demo_projects_def stamped_def u_def)

text \<open>The listings of the example store.\<close>

lemma demo_projects_listed:
  "list_projects ascii_builtins demo_store = Inr
     [[(u ''id'', VStr (u ''p3'')), (u ''title'', VStr (u ''Relay'')),
       (u ''description'', VStr (u ''Chat relay'')), (u ''tech_stack'', VList [VStr (u ''elixir'')]),
       (u ''featured'', VBool True), (u ''created_at'', VStr (u ''2024-02-01T10:00:00''))],
      [(u ''id'', VStr (u ''p2'')), (u ''title'', VStr (u ''Atlas'')),
       (u ''description'', VStr (u ''Map tiles'')), (u ''tech_stack'', VList [VStr (u ''go'')]),
       (u ''featured'', VBool True), (u ''created_at'', VStr (u ''2024-03-01T10:00:00''))],
      [(u ''id'', VStr (u ''p1'')), (u ''title'', VStr (u ''Ledger'')),
       (u ''description'', VStr (u ''Accounting tool'')), (u ''tech_stack'', VList [VStr (u ''rust'')]),
       (u ''featured'', VBool False), (u ''created_at'', VStr (u ''2024-01-01T10:00:00''))],
      [(u ''id'', VStr (u ''p4'')), (u ''title'', VStr (u ''Quill'')),
       (u ''description'', VStr (u ''Editor'')), (u ''tech_stack'', VList []),
       (u ''featured'', VBool False), (u ''created_at'', VStr (u ''2024-01-01T10:00:00''))]]"
  by (simp add: list_projects_def get_documents_def demo_store_def demo_projects_def
      serialize_doc_def dict_set_def sort_created_def stable_sort_def created_key_def
      dict_get_def featured_key_def is_featured_def less_eq_prod_def u_cmp)

lemma demo_blogs_listed:
  "map (\<lambda>x. dict_get x (u ''id'') VNone) (projr (list_blog_posts ascii_builtins demo_store))
     = [VStr (u ''b3''), VStr (u ''b1''), VStr (u ''b4''), VStr (u ''b2'')]"
  by (simp add: list_blog_posts_def get_documents_def demo_store_def demo_blogs_def
      serialize_doc_def dict_set_def sort_created_def stable_sort_def created_key_def
      dict_get_def u_cmp)

lemma demo_cases_listed:
  "map (\<lambda>x. dict_get x (u ''id'') VNone) (projr (list_case_studies ascii_builtins demo_store))
     = [VStr (u ''c2''), VStr (u ''c1'')]"
  by (simp add: list_case_studies_def get_documents_def demo_store_def demo_cases_def
      serialize_doc_def dict_set_def sort_created_def stable_sort_def created_key_def
      dict_get_def u_cmp)


lemma demo_colls:
  "colls demo_store (u ''blogpost'') = demo_blogs"
  "colls demo_store (u ''casestudy'') = demo_cases"
  "colls demo_store (u ''project'') = demo_projects"
  by (simp_all add: demo_store_def u_eq_iff)

theorem projects_featured_then_created_witness:
  "reachable demo_store
   \<and> (\<exists>out. list_projects ascii_builtins demo_store = Inr out
        \<and> map (\<lambda>x. dict_get x (u ''id'') VNone) out
            = [VStr (u ''p3''), VStr (u ''p2''), VStr (u ''p1''), VStr (u ''p4'')]
        \<and> map is_featured out = [True, True, False, False]
        \<and> mset out = mset (map (serialize_doc ascii_builtins) demo_projects))"
proof -
  from projects_featured_then_created [OF demo_reachable demo_stamped(3), of ascii_builtins]
  obtain out where o: "list_projects ascii_builtins demo_store = Inr out"
    and m: "mset out = mset (map (serialize_doc ascii_builtins) (colls demo_store (u ''project'')))"
    by blast
  from o have ids: "map (\<lambda>x. dict_get x (u ''id'') VNone) out
            = [VStr (u ''p3''), VStr (u ''p2''), VStr (u ''p1''), VStr (u ''p4'')]"
    and fs: "map is_featured out = [True, True, False, False]"
    by (auto simp: demo_projects_listed dict_get_def is_featured_def u_eq_iff)
  from o ids fs m show ?thesis
    by (simp add: demo_reachable demo_colls)
qed

theorem listings_descending_by_created_witness:
  "reachable demo_store
   \<and> (\<exists>blogs cases.
        list_blog_posts ascii_builtins demo_store = Inr blogs
      \<and> list_case_studies ascii_builtins demo_store = Inr cases
      \<and> map (\<lambda>x. dict_get x (u ''id'') VNone) blogs
          = [VStr (u ''b3''), VStr (u ''b1''), VStr (u ''b4''), VStr (u ''b2'')]
      \<and> map (\<lambda>x. dict_get x (u ''id'') VNone) cases = [VStr (u ''c2''), VStr (u ''c1'')]
      \<and> mset blogs = mset (map (serialize_doc ascii_builtins) demo_blogs))"
proof -
  from listings_descending_by_created [OF demo_reachable demo_stamped(1,2), of ascii_builtins]
  obtain blogs cases where b: "list_blog_posts ascii_builtins demo_store = Inr blogs"
    and c: "list_case_studies ascii_builtins demo_store = Inr cases"
    and m: "mset blogs = mset (map (serialize_doc ascii_builtins) (colls demo_store (u ''blogpost'')))"
    by blast
  from b demo_blogs_listed
  have ib: "map (\<lambda>x. dict_get x (u ''id'') VNone) blogs
          = [VStr (u ''b3''), VStr (u ''b1''), VStr (u ''b4''), VStr (u ''b2'')]"
    by simp
  from c demo_cases_listed
  have ic: "map (\<lambda>x. dict_get x (u ''id'') VNone) cases = [VStr (u ''c2''), VStr (u ''c1'')]"
    by simp
  from b c ib ic m show ?thesis
    by (simp add: demo_reachable demo_colls)
qed

section \<open>Assistant chat: the steps of a request\<close>

lemma create_document_reachable:
  assumes "reachable st"
  shows "create_document st col body =
     (Inr (fst (assigns st (inserted st))),
      st\<lparr>colls := (colls st)(col := colls st col @
             [(u ''_id'', VOid (fst (assigns st (inserted st)))) # body
              @ [(u ''created_at'', VDate (snd (assigns st (inserted st))))]]),
         inserted := Suc (inserted st)\<rparr>)"
  using assms by (simp add: create_document_def split_beta)

lemma fetch_titles_reachable:
  "reachable st \<Longrightarrow> fetch_titles B st col flds = Inr (map (make_item B flds) (colls st col))"
  by (simp add: fetch_titles_def get_documents_def)

lemma build_corpus_reachable:
  "reachable st \<Longrightarrow> build_corpus B st = Inr (corpus_items B st)"
  by (simp add: build_corpus_def fetch_titles_reachable corpus_items_def take_map)

lemma corpus_items_after_chat:
  "corpus_items B (st\<lparr>colls := (colls st)(u ''chat'' := x), inserted := n\<rparr>) = corpus_items B st"
  by (simp add: corpus_items_def u_eq_iff)

lemma snippet_parts_concat:
  "snippet_parts B s parts flds = parts @ concat (map (field_part B s) flds)"
  by (induction flds arbitrary: parts)
     (auto simp: field_part_def split: option.splits pyval.splits)

lemma make_item_snippet:
  "make_item B flds d = dict_set (serialize_doc B d) (u ''snippet'') (VStr (snippet_of B flds d))"
  by (simp add: make_item_def snippet_of_def snippet_parts_concat Let_def)

lemma map_of_dict_set: "map_of (dict_set d k v) = (map_of d)(k \<mapsto> v)"
  by (simp add: dict_set_def update_conv')

lemma make_item_get_snippet:
  "dict_get (make_item B flds d) (u ''snippet'') dflt = VStr (snippet_of B flds d)"
  by (simp add: make_item_snippet dict_get_def map_of_dict_set)

lemma make_item_get_title:
  assumes "titled d"
  shows "is_text (dict_get (make_item B flds d) (u ''title'') (VStr []))"
proof -
  have ne: "u ''title'' \<noteq> u ''id''" "u ''title'' \<noteq> u ''_id''" "u ''title'' \<noteq> u ''snippet''"
    by (simp_all add: u_eq_iff)
  from assms have dist: "distinct (map fst d)" by (simp add: titled_def)
  have ser: "map_of (serialize_doc B d) (u ''title'') =
     (case map_of d (u ''title'') of None \<Rightarrow> None | Some v \<Rightarrow> Some (serialize_value v))"
    using map_of_serialize_loop [OF dist ne(1,2), of B "[]"]
    by (simp add: serialize_doc_def split: option.splits)
  show ?thesis
  proof (cases "map_of d (u ''title'')")
    case None
    then show ?thesis using ser ne(3)
      by (simp add: make_item_snippet dict_get_def map_of_dict_set)
  next
    case (Some v)
    with assms have "(\<exists>t. v = VDate t) \<or> (\<exists>s. v = VStr s)"
      by (cases v) (simp_all add: titled_def)
    with Some ser ne(3) show ?thesis
      by (auto simp: make_item_snippet dict_get_def map_of_dict_set serialize_value_def)
  qed
qed

lemma score_text:
  assumes "is_text (dict_get item (u ''title'') (VStr []))"
    and "is_text (dict_get item (u ''snippet'') (VStr []))"
  shows "score B tokens item = Inr (score_of B tokens item)"
proof -
  from assms(1) obtain t where t: "dict_get item (u ''title'') (VStr []) = VStr t"
    by (cases "dict_get item (u ''title'') (VStr [])") simp_all
  from assms(2) obtain s where s: "dict_get item (u ''snippet'') (VStr []) = VStr s"
    by (cases "dict_get item (u ''snippet'') (VStr [])") simp_all
  have "{x \<in> tokens. sublist x (item_text B item)} = Set.filter (\<lambda>x. sublist x (item_text B item)) tokens"
    by auto
  then show ?thesis
    by (simp add: score_def score_of_def item_text_def t s)
qed

lemma collect_total:
  "\<forall>x\<in>set xs. f x = Inr (g x) \<Longrightarrow> collect f xs = Inr (map g xs)"
  by (induction xs) simp_all


lemma insort_key_decorated:
  assumes "\<forall>p\<in>set ps. snd p = f (fst p)"
  shows "map fst (insort_key snd (x, f x) ps) = insort_key f x (map fst ps)"
  using assms by (induction ps) auto

lemma set_insort_key_decorated:
  assumes "\<forall>p\<in>set ps. snd p = f (fst p)"
  shows "\<forall>p\<in>set (insort_key snd (x, f x) ps). snd p = f (fst p)"
  using assms by (auto simp: set_insort_key)

lemma sort_key_decorated:
  "map fst (sort_key snd (map (\<lambda>x. (x, f x)) xs)) = sort_key f xs
   \<and> (\<forall>p\<in>set (sort_key snd (map (\<lambda>x. (x, f x)) xs)). snd p = f (fst p))"
proof (induction xs)
  case Nil
  then show ?case by simp
next
  case (Cons x xs)
  then show ?case
    using insort_key_decorated [of "sort_key snd (map (\<lambda>x. (x, f x)) xs)" f x]
    by (auto simp: set_insort_key)
qed

lemma stable_sort_decorated:
  "map fst (stable_sort snd r (zip xs (map f xs))) = stable_sort f r xs"
proof -
  let ?g = "\<lambda>x. (x, f x)"
  have z: "zip xs (map f xs) = map ?g xs"
    by (induction xs) simp_all
  show ?thesis
  proof (cases r)
    case True
    have "map fst (rev (sort_key snd (rev (map ?g xs))))
        = rev (map fst (sort_key snd (map ?g (rev xs))))"
      by (simp add: rev_map)
    also have "\<dots> = rev (sort_key f (rev xs))"
      using sort_key_decorated [of f "rev xs"] by simp
    finally show ?thesis using True by (simp add: stable_sort_def z)
  next
    case False
    then show ?thesis
      using sort_key_decorated [of f xs] by (simp add: stable_sort_def z)
  qed
qed

lemma select_best_text:
  assumes "\<forall>item\<in>set corpus. score B tokens item = Inr (score_of B tokens item)"
  shows "select_best B tokens corpus
     = Inr (take 3 (stable_sort (score_of B tokens) True corpus))"
  using collect_total [OF assms]
  by (simp add: select_best_def stable_sort_decorated)

lemma corpus_items_scored:
  assumes "\<forall>d\<in>set (corpus_source st). titled d"
  shows "\<forall>item\<in>set (corpus_items B st). score B tokens item = Inr (score_of B tokens item)"
proof
  fix item
  assume "item \<in> set (corpus_items B st)"
  then obtain flds d where d: "d \<in> set (corpus_source st)" and item: "item = make_item B flds d"
    by (auto simp: corpus_items_def corpus_source_def)
  from d assms have "titled d" by blast
  then show "score B tokens item = Inr (score_of B tokens item)"
    unfolding item
    by (intro score_text make_item_get_title) (simp_all add: make_item_get_snippet)
qed

lemma score_returns:
  assumes "score B tokens item = Inr k"
  shows "k = score_of B tokens item"
proof -
  from assms obtain t where t: "dict_get item (u ''title'') (VStr []) = VStr t"
    by (cases "dict_get item (u ''title'') (VStr [])") (simp_all add: score_def)
  from assms obtain s where s: "dict_get item (u ''snippet'') (VStr []) = VStr s"
    by (cases "dict_get item (u ''snippet'') (VStr [])") (simp_all add: score_def t)
  from score_text [of item B tokens] assms show ?thesis by (simp add: t s)
qed

lemma collect_returns:
  assumes "collect f xs = Inr ys" and "\<And>x k. f x = Inr k \<Longrightarrow> k = g x"
  shows "ys = map g xs"
  using assms(1)
proof (induction xs arbitrary: ys)
  case Nil
  then show ?case by simp
next
  case (Cons x xs)
  then show ?case
    by (auto split: sum.splits dest: assms(2))
qed

lemma select_best_returns:
  assumes "select_best B tokens corpus = Inr best"
  shows "best = take 3 (stable_sort (score_of B tokens) True corpus)"
proof -
  from assms obtain keys where k: "collect (score B tokens) corpus = Inr keys"
    by (auto simp: select_best_def split: sum.splits)
  have "keys = map (score_of B tokens) corpus"
    using k by (rule collect_returns) (rule score_returns)
  with assms k show ?thesis
    by (simp add: select_best_def stable_sort_decorated)
qed

lemma assistant_chat_steps:
  assumes "reachable st" and "str_strip message \<noteq> []"
  shows "assistant_chat B st message =
     (case select_best B (tokens_of B (str_strip message)) (corpus_items B st) of
        Inl e \<Rightarrow>
          (Inl e,
           st\<lparr>colls := (colls st)(u ''chat'' := colls st (u ''chat'')
                  @ [chat_doc st (inserted st) (u ''user'') (str_strip message)]),
              inserted := Suc (inserted st)\<rparr>)
      | Inr best \<Rightarrow>
          (Inr (make_reply B best),
           st\<lparr>colls := (colls st)(u ''chat'' := colls st (u ''chat'')
                  @ [chat_doc st (inserted st) (u ''user'') (str_strip message),
                     chat_doc st (Suc (inserted st)) (u ''assistant'') (make_reply B best)]),
              inserted := Suc (Suc (inserted st))\<rparr>))"
proof -
  let ?m = "str_strip message"
  let ?st1 = "st\<lparr>colls := (colls st)(u ''chat'' := colls st (u ''chat'')
                  @ [chat_doc st (inserted st) (u ''user'') ?m]),
              inserted := Suc (inserted st)\<rparr>"
  have c1: "create_document st (u ''chat'') (Chat (u ''user'') ?m)
      = (Inr (fst (assigns st (inserted st))), ?st1)"
    using create_document_reachable [OF assms(1)] by (simp add: chat_doc_def)
  have r1: "reachable ?st1" using assms(1) by simp
  have b: "build_corpus B ?st1 = Inr (corpus_items B st)"
    using build_corpus_reachable [OF r1] by (simp add: corpus_items_after_chat)
  have c2: "create_document ?st1 (u ''chat'') (Chat (u ''assistant'') reply)
      = (Inr (fst (assigns st (Suc (inserted st)))),
          st\<lparr>colls := (colls st)(u ''chat'' := colls st (u ''chat'')
                  @ [chat_doc st (inserted st) (u ''user'') ?m,
                     chat_doc st (Suc (inserted st)) (u ''assistant'') reply]),
              inserted := Suc (Suc (inserted st))\<rparr>)" for reply
    using create_document_reachable [OF r1] by (simp add: chat_doc_def)
  show ?thesis
    using assms(2) by (simp add: assistant_chat_def Let_def c1 b c2 split: sum.splits)
qed

lemma str_strip_ends:
  assumes "str_strip s \<noteq> []"
  shows "\<not> is_space (hd (str_strip s)) \<and> \<not> is_space (last (str_strip s))"
proof -
  let ?t = "dropWhile is_space s"
  let ?r = "dropWhile is_space (rev ?t)"
  from assms have r: "?r \<noteq> []" by (simp add: str_strip_def)
  then have t: "?t \<noteq> []" by (cases ?t) simp_all
  have "last (str_strip s) = hd ?r" using r by (simp add: str_strip_def last_rev)
  moreover have "\<not> is_space (hd ?r)" using r by (rule hd_dropWhile)
  ultimately have l: "\<not> is_space (last (str_strip s))" by simp
  have "rev ?t = takeWhile is_space (rev ?t) @ ?r" by simp
  then have "?t = rev ?r @ rev (takeWhile is_space (rev ?t))"
    by (metis rev_append rev_rev_ident)
  then have "hd ?t = hd (rev ?r)" using r by (metis hd_append2 rev_is_Nil_conv)
  moreover have "\<not> is_space (hd ?t)" using t by (rule hd_dropWhile)
  ultimately have "\<not> is_space (hd (str_strip s))" by (simp add: str_strip_def)
  with l show ?thesis by simp
qed

lemma chat_doc_fields:
  "map_of (chat_doc st n role message) (u ''role'') = Some (VStr role)"
  "map_of (chat_doc st n role message) (u ''message'') = Some (VStr message)"
  by (simp_all add: chat_doc_def Chat_def u_eq_iff)

text \<open>
  Claim C4. A request with a message that is not blank, on a reachable store whose
  content documents have text titles, is answered, and exactly two Chat documents are
  appended to the chat collection: first one with role \<^verbatim>\<open>user\<close> holding the
  (stripped) inbound message, then one with role \<^verbatim>\<open>assistant\<close> holding the reply
  that is returned. No other collection changes.
\<close>

theorem assistant_chat_two_documents:
  assumes "reachable st"
    and "\<not> (\<forall>c\<in>set message. is_space c)"
    and "\<forall>d\<in>set (corpus_source st). titled d"
  shows "\<exists>reply st' d1 d2.
      assistant_chat B st message = (Inr reply, st')
    \<and> colls st' (u ''chat'') = colls st (u ''chat'') @ [d1, d2]
    \<and> map_of d1 (u ''role'') = Some (VStr (u ''user''))
    \<and> map_of d1 (u ''message'') = Some (VStr (str_strip message))
    \<and> map_of d2 (u ''role'') = Some (VStr (u ''assistant''))
    \<and> map_of d2 (u ''message'') = Some (VStr reply)
    \<and> (\<forall>c. c \<noteq> u ''chat'' \<longrightarrow> colls st' c = colls st c)
    \<and> inserted st' = inserted st + 2"
proof -
  let ?m = "str_strip message"
  let ?best = "take 3 (stable_sort (score_of B (tokens_of B ?m)) True (corpus_items B st))"
  from assms(2) have m: "?m \<noteq> []" by (simp add: str_strip_empty_iff)
  have "select_best B (tokens_of B ?m) (corpus_items B st) = Inr ?best"
    by (rule select_best_text) (rule corpus_items_scored [OF assms(3)])
  with assistant_chat_steps [OF assms(1) m, of B]
  have "assistant_chat B st message =
     (Inr (make_reply B ?best),
      st\<lparr>colls := (colls st)(u ''chat'' := colls st (u ''chat'')
             @ [chat_doc st (inserted st) (u ''user'') ?m,
                chat_doc st (Suc (inserted st)) (u ''assistant'') (make_reply B ?best)]),
         inserted := Suc (Suc (inserted st))\<rparr>)"
    by simp
  then show ?thesis
    by (simp add: chat_doc_fields)
qed

text \<open>
  Claim C10. For every request the endpoint accepts (the message is not blank, the store
  is reachable), the Chat document stored with role \<^verbatim>\<open>user\<close> holds the stripped
  message: it is not empty and neither starts nor ends with whitespace. The reply, when
  one is returned, is computed from the tokens of the stripped message.
\<close>

theorem user_message_stored_stripped:
  assumes "reachable st"
    and "\<not> (\<forall>c\<in>set message. is_space c)"
  shows "\<exists>r st' d rest.
      assistant_chat B st message = (r, st')
    \<and> colls st' (u ''chat'') = colls st (u ''chat'') @ d # rest
    \<and> map_of d (u ''role'') = Some (VStr (u ''user''))
    \<and> map_of d (u ''message'') = Some (VStr (str_strip message))
    \<and> str_strip message \<noteq> []
    \<and> \<not> is_space (hd (str_strip message))
    \<and> \<not> is_space (last (str_strip message))
    \<and> (\<forall>reply. r = Inr reply \<longrightarrow>
          reply = make_reply B (take 3 (stable_sort
                    (score_of B (tokens_of B (str_strip message))) True (corpus_items B st))))"
proof -
  let ?m = "str_strip message"
  let ?sel = "select_best B (tokens_of B ?m) (corpus_items B st)"
  from assms(2) have m: "?m \<noteq> []" by (simp add: str_strip_empty_iff)
  note ends = str_strip_ends [OF m]
  show ?thesis
  proof (cases ?sel)
    case (Inl e)
    with assistant_chat_steps [OF assms(1) m, of B] m ends show ?thesis
      by (simp add: chat_doc_fields)
  next
    case (Inr best)
    from select_best_returns [OF Inr] Inr assistant_chat_steps [OF assms(1) m, of B] m ends
    show ?thesis
      by (simp add: chat_doc_fields)
  qed
qed


lemma demo_titled: "\<forall>d\<in>set (corpus_source demo_store). titled d"
  by (simp add: corpus_source_def demo_colls demo_blogs_def demo_cases_def demo_projects_def
      titled_def u_eq_iff)

lemma demo_message:
  "\<not> (\<forall>c\<in>set (u ''  rust relay ''). is_space c)"
  "str_strip (u ''  rust relay '') = u ''rust relay''"
  by (simp_all add: str_strip_def u_def is_space_def)

lemma demo_chat_empty: "colls demo_store (u ''chat'') = []" "inserted demo_store = 0"
  by (simp_all add: demo_store_def u_eq_iff)

theorem assistant_chat_two_documents_witness:
  "reachable demo_store
   \<and> (\<exists>reply st' d1 d2.
        assistant_chat ascii_builtins demo_store (u ''  rust relay '') = (Inr reply, st')
      \<and> colls st' (u ''chat'') = [d1, d2]
      \<and> map_of d1 (u ''role'') = Some (VStr (u ''user''))
      \<and> map_of d1 (u ''message'') = Some (VStr (u ''rust relay''))
      \<and> map_of d2 (u ''role'') = Some (VStr (u ''assistant''))
      \<and> map_of d2 (u ''message'') = Some (VStr reply)
      \<and> inserted st' = 2)"
proof -
  from assistant_chat_two_documents [OF demo_reachable demo_message(1) demo_titled, of ascii_builtins]
  obtain reply st' d1 d2 where
    "assistant_chat ascii_builtins demo_store (u ''  rust relay '') = (Inr reply, st')"
    "colls st' (u ''chat'') = colls demo_store (u ''chat'') @ [d1, d2]"
    "map_of d1 (u ''role'') = Some (VStr (u ''user''))"
    "map_of d1 (u ''message'') = Some (VStr (str_strip (u ''  rust relay '')))"
    "map_of d2 (u ''role'') = Some (VStr (u ''assistant''))"
    "map_of d2 (u ''message'') = Some (VStr reply)"
    "inserted st' = inserted demo_store + 2"
    by blast
  then show ?thesis
    by (simp add: demo_reachable demo_message(2) demo_chat_empty)
qed

theorem user_message_stored_stripped_witness:
  "reachable demo_store
   \<and> (\<exists>r st' d rest.
        assistant_chat ascii_builtins demo_store (u ''  rust relay '') = (r, st')
      \<and> colls st' (u ''chat'') = d # rest
      \<and> map_of d (u ''role'') = Some (VStr (u ''user''))
      \<and> map_of d (u ''message'') = Some (VStr (u ''rust relay'')))"
proof -
  from user_message_stored_stripped [OF demo_reachable demo_message(1), of ascii_builtins]
  obtain r st' d rest where
    "assistant_chat ascii_builtins demo_store (u ''  rust relay '') = (r, st')"
    "colls st' (u ''chat'') = colls demo_store (u ''chat'') @ d # rest"
    "map_of d (u ''role'') = Some (VStr (u ''user''))"
    "map_of d (u ''message'') = Some (VStr (str_strip (u ''  rust relay '')))"
    by blast
  then show ?thesis
    by (simp add: demo_reachable demo_message(2) demo_chat_empty)
qed

section \<open>Assistant chat: the corpus\<close>

lemma field_part_length: "length (field_part B s f) \<le> 1"
  by (simp add: field_part_def split: option.splits pyval.splits)

lemma concat_field_parts_length:
  "length (concat (map (field_part B s) flds)) \<le> length flds"
proof (induction flds)
  case Nil
  then show ?case by simp
next
  case (Cons f flds)
  then show ?case using field_part_length [of B s f] by simp
qed

lemma str_join_length:
  "length (str_join sep ps) \<le> sum_list (map length ps) + length sep * (length ps - 1)"
  by (induction sep ps rule: str_join.induct) simp_all

lemma sum_list_take_bound:
  "sum_list (map length (map (take n) ps)) \<le> n * length ps"
  by (induction ps) simp_all

lemma snippet_of_length:
  "length (snippet_of B flds d) \<le> 200 * length flds + 3 * (length flds - 1)"
proof -
  let ?ps = "filter (\<lambda>p. p \<noteq> []) (concat (map (field_part B (serialize_doc B d)) flds))"
  have n: "length ?ps \<le> length flds"
    using concat_field_parts_length [of B "serialize_doc B d" flds]
      length_filter_le [of "\<lambda>p. p \<noteq> []" "concat (map (field_part B (serialize_doc B d)) flds)"]
    by linarith
  have "length (snippet_of B flds d)
      \<le> sum_list (map length (map (take 200) ?ps)) + 3 * (length (map (take 200) ?ps) - 1)"
    using str_join_length [of bullet_sep "map (take 200) ?ps"]
    by (simp add: snippet_of_def bullet_sep_def)
  also have "\<dots> \<le> 200 * length ?ps + 3 * (length ?ps - 1)"
    using sum_list_take_bound [of 200 ?ps] by simp
  also have "\<dots> \<le> 200 * length flds + 3 * (length flds - 1)"
    using n by (simp add: add_mono diff_le_mono)
  finally show ?thesis .
qed

text \<open>
  Claim C7. The corpus of a chat request is made of at most ten items of each of the
  three content collections, in fetch order. The snippet of an item is made from the
  fixed field list of its collection: the text of each field, the empty ones left out,
  each cut at 200 characters, joined by the separator. With three fields a snippet has
  at most 606 characters.
\<close>

theorem corpus_bounded_with_snippets:
  assumes "reachable st"
  shows "\<exists>blogs cases projs.
      build_corpus B st = Inr (blogs @ cases @ projs)
    \<and> blogs = map (make_item B blog_fields) (take 10 (colls st (u ''blogpost'')))
    \<and> cases = map (make_item B case_fields) (take 10 (colls st (u ''casestudy'')))
    \<and> projs = map (make_item B proj_fields) (take 10 (colls st (u ''project'')))
    \<and> length blogs \<le> 10 \<and> length cases \<le> 10 \<and> length projs \<le> 10
    \<and> (\<forall>flds d. map_of (make_item B flds d) (u ''snippet'') =
          Some (VStr (str_join bullet_sep (map (take 200) (filter (\<lambda>p. p \<noteq> [])
                  (concat (map (field_part B (serialize_doc B d)) flds)))))))
    \<and> (\<forall>d. length (snippet_of B blog_fields d) \<le> 606
           \<and> length (snippet_of B case_fields d) \<le> 606
           \<and> length (snippet_of B proj_fields d) \<le> 606)"
proof -
  have s: "map_of (make_item B flds d) (u ''snippet'') =
          Some (VStr (str_join bullet_sep (map (take 200) (filter (\<lambda>p. p \<noteq> [])
                  (concat (map (field_part B (serialize_doc B d)) flds))))))" for flds d
    by (simp add: make_item_snippet map_of_dict_set snippet_of_def)
  have l: "length (snippet_of B blog_fields d) \<le> 606
           \<and> length (snippet_of B case_fields d) \<le> 606
           \<and> length (snippet_of B proj_fields d) \<le> 606" for d
    using snippet_of_length [of B blog_fields d] snippet_of_length [of B case_fields d]
      snippet_of_length [of B proj_fields d]
    by (simp add: blog_fields_def case_fields_def proj_fields_def)
  show ?thesis
    using build_corpus_reachable [OF assms, of B] s l
    by (simp add: corpus_items_def)
qed


lemma u_append: "u a @ u b = u (a @ b)" "u a @ u b @ c = u (a @ b) @ c"
  by (simp_all add: u_def)

lemma length_u: "length (u s) = length s"
  by (simp add: u_def)

lemma demo_snippets:
  "snippet_of ascii_builtins blog_fields (demo_blogs ! 0)
     = u ''Typed queues'' @ bullet_sep @ u ''rust, async'' @ bullet_sep @ u ''Queues in Rust''"
  "snippet_of ascii_builtins blog_fields (demo_blogs ! Suc 0) = u ''Notes'' @ bullet_sep @ u ''Short notes''"
  "snippet_of ascii_builtins blog_fields [(u ''title'', VStr (replicate 250 97))] = replicate 200 97"
  by (simp_all add: snippet_of_def demo_blogs_def blog_fields_def field_part_def
      serialize_doc_def dict_set_def u_eq_iff u_Nil_iff u_append length_u)

theorem corpus_bounded_with_snippets_witness:
  "reachable demo_store
   \<and> (\<exists>blogs cases projs.
        build_corpus ascii_builtins demo_store = Inr (blogs @ cases @ projs)
      \<and> length blogs = 4 \<and> length cases = 2 \<and> length projs = 4
      \<and> map_of (blogs ! 0) (u ''snippet'') =
          Some (VStr (u ''Typed queues'' @ bullet_sep @ u ''rust, async'' @ bullet_sep
                      @ u ''Queues in Rust''))
      \<and> map_of (blogs ! 1) (u ''snippet'') = Some (VStr (u ''Notes'' @ bullet_sep @ u ''Short notes'')))
   \<and> map_of (make_item ascii_builtins blog_fields [(u ''title'', VStr (replicate 250 97))])
        (u ''snippet'') = Some (VStr (replicate 200 97))"
proof -
  from corpus_bounded_with_snippets [OF demo_reachable, of ascii_builtins]
  obtain blogs cases projs where
    c: "build_corpus ascii_builtins demo_store = Inr (blogs @ cases @ projs)"
    and b: "blogs = map (make_item ascii_builtins blog_fields) (take 10 (colls demo_store (u ''blogpost'')))"
    and cs: "cases = map (make_item ascii_builtins case_fields) (take 10 (colls demo_store (u ''casestudy'')))"
    and ps: "projs = map (make_item ascii_builtins proj_fields) (take 10 (colls demo_store (u ''project'')))"
    and sn: "\<And>flds d. map_of (make_item ascii_builtins flds d) (u ''snippet'') =
          Some (VStr (str_join bullet_sep (map (take 200) (filter (\<lambda>p. p \<noteq> [])
                  (concat (map (field_part ascii_builtins (serialize_doc ascii_builtins d)) flds))))))"
    by blast
  have lb: "length demo_blogs = 4" "length demo_cases = 2" "length demo_projects = 4"
    by (simp_all add: demo_blogs_def demo_cases_def demo_projects_def)
  have sn': "map_of (make_item ascii_builtins flds d) (u ''snippet'')
      = Some (VStr (snippet_of ascii_builtins flds d))" for flds d
    using sn [of flds d] by (simp add: snippet_of_def)
  have l: "length blogs = 4" "length cases = 2" "length projs = 4"
    using lb by (simp_all add: b cs ps demo_colls)
  have s0: "map_of (blogs ! 0) (u ''snippet'') =
          Some (VStr (u ''Typed queues'' @ bullet_sep @ u ''rust, async'' @ bullet_sep
                      @ u ''Queues in Rust''))"
    using lb by (simp add: b demo_colls sn' demo_snippets)
  have s1: "map_of (blogs ! 1) (u ''snippet'') = Some (VStr (u ''Notes'' @ bullet_sep @ u ''Short notes''))"
    using lb by (simp add: b demo_colls sn' demo_snippets)
  have t: "map_of (make_item ascii_builtins blog_fields [(u ''title'', VStr (replicate 250 97))])
        (u ''snippet'') = Some (VStr (replicate 200 97))"
    by (simp add: sn' demo_snippets)
  from c l s0 s1 t demo_reachable show ?thesis by blast
qed

section \<open>Assistant chat: the reply\<close>

lemma u_Cons: "u (c # s) = of_char c # u s"
  by (simp add: u_def)

lemma generic_reply_hd: "generic_reply \<noteq> [] \<and> hd generic_reply = 84"
  by (simp add: generic_reply_def u_Cons)

lemma str_join_hd:
  assumes "p \<noteq> []" and "ps \<noteq> []"
  shows "str_join sep (p # ps) \<noteq> [] \<and> hd (str_join sep (p # ps)) = hd p"
proof -
  from assms(2) obtain q qs where "ps = q # qs" by (cases ps) auto
  with assms(1) show ?thesis by simp
qed

lemma make_reply_generic_iff: "make_reply B best = generic_reply \<longleftrightarrow> best = []"
proof
  assume eq: "make_reply B best = generic_reply"
  show "best = []"
  proof (rule ccontr)
    assume ne: "best \<noteq> []"
    let ?h = "u ''Here are some highlights that match what you asked:''"
    let ?rest = "map (item_line B) best
        @ [u ''Want a deeper dive or a quick estimate? I can outline a plan step-by-step.'']"
    have h: "?h \<noteq> [] \<and> hd ?h = 72" by (simp add: u_Cons)
    have "hd (str_join [10] (?h # ?rest)) = hd ?h"
      using str_join_hd [of ?h ?rest "[10]"] h by simp
    with h have "hd (make_reply B best) = 72" using ne by (simp add: make_reply_def)
    with eq generic_reply_hd show False by simp
  qed
next
  assume "best = []"
  then show "make_reply B best = generic_reply" by (simp add: make_reply_def)
qed

lemma stable_sort_length: "length (stable_sort key r xs) = length xs"
  using stable_sort_mset [of key r xs] by (metis size_mset)

lemma take3_stable_sort_Nil: "take 3 (stable_sort key r xs) = [] \<longleftrightarrow> xs = []"
  using stable_sort_length [of key r xs] by (cases xs) auto

lemma stable_sort_constant:
  assumes "\<forall>x\<in>set xs. key x = k"
  shows "stable_sort key r xs = xs"
proof -
  have "set (stable_sort key r xs) = set xs"
    using stable_sort_mset [of key r xs] by (metis set_mset_mset)
  with assms have "filter (\<lambda>x. key x = k) (stable_sort key r xs) = stable_sort key r xs"
    by (simp add: filter_id_conv)
  moreover from assms have "filter (\<lambda>x. key x = k) xs = xs"
    by (simp add: filter_id_conv)
  ultimately show ?thesis
    using stable_sort_keeps_order [of key k r xs] by simp
qed

text \<open>
  Claim C5. A request that is answered returns the fixed generic reply if and only if
  the assembled corpus is empty. When the corpus is not empty and every item scores
  zero, the reply is the list of highlights made of the first three items of the corpus
  in fetch order, not the generic reply. (The corpus is assembled after the user message
  is stored, which changes none of the three content collections.)
\<close>

theorem generic_reply_iff_empty_corpus:
  assumes "reachable st"
    and "\<not> (\<forall>c\<in>set message. is_space c)"
    and "\<forall>d\<in>set (corpus_source st). titled d"
  shows "\<exists>reply st' corpus.
      assistant_chat B st message = (Inr reply, st')
    \<and> build_corpus B st = Inr corpus
    \<and> (reply = generic_reply \<longleftrightarrow> corpus = [])
    \<and> (corpus \<noteq> [] \<and>
         (\<forall>item\<in>set corpus. score B (tokens_of B (str_strip message)) item = Inr 0)
        \<longrightarrow> reply = str_join [10]
              ([u ''Here are some highlights that match what you asked:'']
               @ map (item_line B) (take 3 corpus)
               @ [u ''Want a deeper dive or a quick estimate? I can outline a plan step-by-step.'']))"
proof -
  let ?m = "str_strip message"
  let ?T = "tokens_of B ?m"
  let ?corpus = "corpus_items B st"
  let ?best = "take 3 (stable_sort (score_of B ?T) True ?corpus)"
  from assms(2) have m: "?m \<noteq> []" by (simp add: str_strip_empty_iff)
  have sc: "\<forall>item\<in>set ?corpus. score B ?T item = Inr (score_of B ?T item)"
    by (rule corpus_items_scored [OF assms(3)])
  have sel: "select_best B ?T ?corpus = Inr ?best"
    by (rule select_best_text) (rule sc)
  obtain st' where run: "assistant_chat B st message = (Inr (make_reply B ?best), st')"
    using assistant_chat_steps [OF assms(1) m, of B] sel by simp
  have corpus: "build_corpus B st = Inr ?corpus"
    by (rule build_corpus_reachable [OF assms(1)])
  have gen: "make_reply B ?best = generic_reply \<longleftrightarrow> ?corpus = []"
    by (simp only: make_reply_generic_iff take3_stable_sort_Nil)
  have zero: "make_reply B ?best = str_join [10]
              ([u ''Here are some highlights that match what you asked:'']
               @ map (item_line B) (take 3 ?corpus)
               @ [u ''Want a deeper dive or a quick estimate? I can outline a plan step-by-step.''])"
    if ne: "?corpus \<noteq> []" and z: "\<forall>item\<in>set ?corpus. score B ?T item = Inr 0"
  proof -
    from sc z have "\<forall>item\<in>set ?corpus. score_of B ?T item = 0" by auto
    then have "stable_sort (score_of B ?T) True ?corpus = ?corpus"
      by (rule stable_sort_constant)
    moreover from ne have "take 3 ?corpus \<noteq> []" by (cases ?corpus) auto
    ultimately show ?thesis by (simp add: make_reply_def)
  qed
  from run corpus gen zero show ?thesis by blast
qed


lemma tokens_of_list:
  "tokens_of B m = set (map (str_lower B) (filter (\<lambda>t. 2 < length t) (str_split m)))"
  by (auto simp: tokens_of_def)

lemma score_of_list:
  "score_of B (set ts) item = length (filter (\<lambda>t. sublist t (item_text B item)) (remdups ts))"
proof -
  have "{t \<in> set ts. sublist t (item_text B item)}
      = set (filter (\<lambda>t. sublist t (item_text B item)) ts)"
    by auto
  then show ?thesis
    by (simp add: score_of_def card_set remdups_filter del: set_filter)
qed

lemma small_corpus:
  "corpus_items ascii_builtins small_store =
     [[(u ''id'', VStr (u ''p2'')), (u ''title'', VStr (u ''Atlas'')),
       (u ''description'', VStr (u ''Map tiles'')), (u ''tech_stack'', VList [VStr (u ''go'')]),
       (u ''featured'', VBool True),
       (u ''snippet'', VStr (u ''Atlas'' @ bullet_sep @ u ''Map tiles'' @ bullet_sep @ u ''go''))]]"
  by (simp add: corpus_items_def small_store_def make_item_snippet snippet_of_def proj_fields_def
      field_part_def serialize_doc_def dict_set_def u_eq_iff u_Nil_iff length_u)

lemma small_titled: "reachable small_store" "\<forall>d\<in>set (corpus_source small_store). titled d"
  by (simp_all add: small_store_def corpus_source_def titled_def u_eq_iff)

lemma rust_message:
  "\<not> (\<forall>c\<in>set (u ''rust''). is_space c)"
  "str_strip (u ''rust'') = u ''rust''"
  "tokens_of ascii_builtins (u ''rust'') = set [u ''rust'']"
  by (simp_all add: str_strip_def tokens_of_list str_split_def ascii_builtins_def ascii_lower_def
      u_def is_space_def)

lemma small_score:
  "score_of ascii_builtins (set [u ''rust''])
     [(u ''id'', VStr (u ''p2'')), (u ''title'', VStr (u ''Atlas'')),
       (u ''description'', VStr (u ''Map tiles'')), (u ''tech_stack'', VList [VStr (u ''go'')]),
       (u ''featured'', VBool True),
       (u ''snippet'', VStr (u ''Atlas'' @ bullet_sep @ u ''Map tiles'' @ bullet_sep @ u ''go''))] = 0"
  by (simp only: score_of_list)
    (simp add: item_text_def dict_get_def u_eq_iff ascii_builtins_def
      ascii_lower_def bullet_sep_def u_def sublist_code)


lemma empty_titled: "reachable empty_store" "\<forall>d\<in>set (corpus_source empty_store). titled d"
  "corpus_items ascii_builtins empty_store = []"
  by (simp_all add: empty_store_def corpus_source_def corpus_items_def)

theorem generic_reply_iff_empty_corpus_witness:
  "reachable empty_store \<and> reachable small_store
   \<and> (\<exists>st'. assistant_chat ascii_builtins empty_store (u ''rust'') = (Inr generic_reply, st'))
   \<and> (\<exists>st'. assistant_chat ascii_builtins small_store (u ''rust'') =
          (Inr (str_join [10]
             [u ''Here are some highlights that match what you asked:'',
              u ''- Atlas: Atlas'' @ bullet_sep @ u ''Map tiles'' @ bullet_sep @ u ''go'',
              u ''Want a deeper dive or a quick estimate? I can outline a plan step-by-step.'']),
           st'))"
proof -
  let ?item = "[(u ''id'', VStr (u ''p2'')), (u ''title'', VStr (u ''Atlas'')),
       (u ''description'', VStr (u ''Map tiles'')), (u ''tech_stack'', VList [VStr (u ''go'')]),
       (u ''featured'', VBool True),
       (u ''snippet'', VStr (u ''Atlas'' @ bullet_sep @ u ''Map tiles'' @ bullet_sep @ u ''go''))]"
  from generic_reply_iff_empty_corpus [OF empty_titled(1) rust_message(1) empty_titled(2),
      of ascii_builtins]
  obtain reply1 st1 corpus1 where
    run1: "assistant_chat ascii_builtins empty_store (u ''rust'') = (Inr reply1, st1)"
    and bc1: "build_corpus ascii_builtins empty_store = Inr corpus1"
    and iff1: "reply1 = generic_reply \<longleftrightarrow> corpus1 = []"
    by blast
  from bc1 build_corpus_reachable [OF empty_titled(1), of ascii_builtins]
  have "corpus1 = []" by (simp add: empty_titled(3))
  with iff1 run1
  have 1: "\<exists>st'. assistant_chat ascii_builtins empty_store (u ''rust'') = (Inr generic_reply, st')"
    by auto
  from generic_reply_iff_empty_corpus [OF small_titled(1) rust_message(1) small_titled(2),
      of ascii_builtins]
  obtain reply2 st2 corpus2 where
    run2: "assistant_chat ascii_builtins small_store (u ''rust'') = (Inr reply2, st2)"
    and bc2: "build_corpus ascii_builtins small_store = Inr corpus2"
    and zero2: "corpus2 \<noteq> [] \<and>
         (\<forall>item\<in>set corpus2.
             score ascii_builtins (tokens_of ascii_builtins (str_strip (u ''rust''))) item = Inr 0)
        \<longrightarrow> reply2 = str_join [10]
              ([u ''Here are some highlights that match what you asked:'']
               @ map (item_line ascii_builtins) (take 3 corpus2)
               @ [u ''Want a deeper dive or a quick estimate? I can outline a plan step-by-step.''])"
    by blast
  from bc2 build_corpus_reachable [OF small_titled(1), of ascii_builtins]
  have c2: "corpus2 = [?item]" by (simp add: small_corpus)
  have "score ascii_builtins (set [u ''rust'']) ?item
      = Inr (score_of ascii_builtins (set [u ''rust'']) ?item)"
    by (rule score_text) (simp_all add: dict_get_def u_eq_iff)
  then have sc: "score ascii_builtins (tokens_of ascii_builtins (str_strip (u ''rust''))) ?item = Inr 0"
    by (simp only: small_score rust_message)
  have line: "item_line ascii_builtins ?item
      = u ''- Atlas: Atlas'' @ bullet_sep @ u ''Map tiles'' @ bullet_sep @ u ''go''"
    by (simp add: item_line_def dict_get_def u_eq_iff u_append)
  from zero2 c2 sc have "reply2 = str_join [10]
             [u ''Here are some highlights that match what you asked:'',
              u ''- Atlas: Atlas'' @ bullet_sep @ u ''Map tiles'' @ bullet_sep @ u ''go'',
              u ''Want a deeper dive or a quick estimate? I can outline a plan step-by-step.'']"
    by (simp add: line)
  with run2 have 2: "\<exists>st'. assistant_chat ascii_builtins small_store (u ''rust'') =
          (Inr (str_join [10]
             [u ''Here are some highlights that match what you asked:'',
              u ''- Atlas: Atlas'' @ bullet_sep @ u ''Map tiles'' @ bullet_sep @ u ''go'',
              u ''Want a deeper dive or a quick estimate? I can outline a plan step-by-step.'']),
           st')"
    by auto
  from 1 2 empty_titled(1) small_titled(1) show ?thesis by blast
qed

section \<open>Assistant chat: tokens, scores and ranking\<close>

lemma split_loop_spaces:
  "\<forall>c\<in>set b. is_space c \<Longrightarrow> split_loop w b = (if w = [] then [] else [w])"
proof (induction b arbitrary: w)
  case Nil
  then show ?case by simp
next
  case (Cons c b)
  then have "split_loop [] b = []" by simp
  with Cons.prems show ?case by simp
qed

lemma split_loop_word:
  "\<forall>c\<in>set a. \<not> is_space c \<Longrightarrow> split_loop w a = (if w @ a = [] then [] else [w @ a])"
  by (induction a arbitrary: w) simp_all

lemma split_loop_at_space:
  "is_space c \<Longrightarrow> split_loop w (a @ c # b) = split_loop w a @ split_loop [] b"
  by (induction a arbitrary: w) simp_all

lemma str_split_equations:
  "str_split [] = []"
  "w \<noteq> [] \<and> (\<forall>c\<in>set w. \<not> is_space c) \<longrightarrow> str_split w = [w]"
  "is_space c \<longrightarrow> str_split (a @ c # b) = str_split a @ str_split b"
  using split_loop_word [of w "[]"] split_loop_at_space [of c "[]" a b]
  by (auto simp: str_split_def)

lemma demo_tokens:
  "str_strip (u ''  Relay ELIXIR rust go '') = u ''Relay ELIXIR rust go''"
  "tokens_of ascii_builtins (u ''Relay ELIXIR rust go'') = set [u ''relay'', u ''elixir'', u ''rust'']"
  by (simp_all add: str_strip_def tokens_of_list str_split_def ascii_builtins_def ascii_lower_def
      u_def is_space_def)

lemma score_of_list_fun:
  "score_of B (set ts)
     = (\<lambda>item. length (filter (\<lambda>t. sublist t (item_text B item)) (remdups ts)))"
  by (rule ext) (rule score_of_list)

lemma rank_corpus:
  "corpus_items ascii_builtins rank_store =
     [[(u ''id'', VStr (u ''p1'')), (u ''title'', VStr (u ''Ledger'')),
       (u ''description'', VStr (u ''rust'')),
       (u ''snippet'', VStr (u ''Ledger'' @ bullet_sep @ u ''rust''))],
      [(u ''id'', VStr (u ''p2'')), (u ''title'', VStr (u ''Atlas'')),
       (u ''description'', VStr (u ''go'')),
       (u ''snippet'', VStr (u ''Atlas'' @ bullet_sep @ u ''go''))],
      [(u ''id'', VStr (u ''p3'')), (u ''title'', VStr (u ''Relay'')),
       (u ''description'', VStr (u ''elixir'')),
       (u ''snippet'', VStr (u ''Relay'' @ bullet_sep @ u ''elixir''))],
      [(u ''id'', VStr (u ''p4'')), (u ''title'', VStr (u ''Quill'')),
       (u ''description'', VStr (u ''Rust'')),
       (u ''snippet'', VStr (u ''Quill'' @ bullet_sep @ u ''Rust''))]]"
  by (simp add: corpus_items_def rank_store_def make_item_snippet snippet_of_def proj_fields_def
      field_part_def serialize_doc_def dict_set_def u_eq_iff u_Nil_iff length_u)

lemma rank_texts:
  "map (item_text ascii_builtins) (corpus_items ascii_builtins rank_store) =
     [u ''ledger ledger'' @ bullet_sep @ u ''rust'', u ''atlas atlas'' @ bullet_sep @ u ''go'',
      u ''relay relay'' @ bullet_sep @ u ''elixir'', u ''quill quill'' @ bullet_sep @ u ''rust'']"
  by (simp add: rank_corpus item_text_def dict_get_def u_eq_iff)
     (simp add: ascii_builtins_def ascii_lower_def bullet_sep_def u_def)


text \<open>
  Claim C6. For a request that is answered, the reply is made from the first three
  items of a ranking of the corpus: a rearrangement of the corpus in descending order
  of score in which items of equal score keep their fetch order. The score of an item
  is the number of tokens that occur as a substring of the lowercased text made of its
  title, a space and its snippet. The tokens are the set of the lowercased words of the
  stripped message that are longer than two characters, the words being the maximal
  runs of characters that are not whitespace: splitting the empty text gives no word, a
  run without whitespace is one word, and a whitespace character separates the words
  before it from the words after it.
\<close>

theorem keyword_ranking:
  assumes "reachable st"
    and "\<not> (\<forall>c\<in>set message. is_space c)"
    and "\<forall>d\<in>set (corpus_source st). titled d"
  shows "\<exists>reply st' ranked.
      assistant_chat B st message = (Inr reply, st')
    \<and> reply = make_reply B (take 3 ranked)
    \<and> select_best B (tokens_of B (str_strip message)) (corpus_items B st) = Inr (take 3 ranked)
    \<and> mset ranked = mset (corpus_items B st)
    \<and> sorted_wrt (\<lambda>a b. score_of B (tokens_of B (str_strip message)) b
                       \<le> score_of B (tokens_of B (str_strip message)) a) ranked
    \<and> (\<forall>k. filter (\<lambda>x. score_of B (tokens_of B (str_strip message)) x = k) ranked
           = filter (\<lambda>x. score_of B (tokens_of B (str_strip message)) x = k) (corpus_items B st))
    \<and> (\<forall>item\<in>set (corpus_items B st).
           score B (tokens_of B (str_strip message)) item
             = Inr (score_of B (tokens_of B (str_strip message)) item))
    \<and> (\<forall>T item. score_of B T item =
           card {t \<in> T. sublist t (str_lower B
                   (text_of (dict_get item (u ''title'') (VStr [])) @ u '' ''
                    @ text_of (dict_get item (u ''snippet'') (VStr []))))})
    \<and> tokens_of B (str_strip message)
         = {str_lower B w | w. w \<in> set (str_split (str_strip message)) \<and> 2 < length w}
    \<and> str_split [] = []
    \<and> (\<forall>w. w \<noteq> [] \<and> (\<forall>c\<in>set w. \<not> is_space c) \<longrightarrow> str_split w = [w])
    \<and> (\<forall>a c b. is_space c \<longrightarrow> str_split (a @ c # b) = str_split a @ str_split b)"
proof -
  let ?m = "str_strip message"
  let ?T = "tokens_of B ?m"
  let ?corpus = "corpus_items B st"
  let ?ranked = "stable_sort (score_of B ?T) True ?corpus"
  from assms(2) have m: "?m \<noteq> []" by (simp add: str_strip_empty_iff)
  have sc: "\<forall>item\<in>set ?corpus. score B ?T item = Inr (score_of B ?T item)"
    by (rule corpus_items_scored [OF assms(3)])
  have sel: "select_best B ?T ?corpus = Inr (take 3 ?ranked)"
    by (rule select_best_text) (rule sc)
  obtain st' where run: "assistant_chat B st message = (Inr (make_reply B (take 3 ?ranked)), st')"
    using assistant_chat_steps [OF assms(1) m, of B] sel by simp
  have perm: "mset ?ranked = mset ?corpus" by (rule stable_sort_mset)
  have desc: "sorted_wrt (\<lambda>a b. score_of B ?T b \<le> score_of B ?T a) ?ranked"
    by (rule stable_sort_descending)
  have stab: "\<forall>k. filter (\<lambda>x. score_of B ?T x = k) ?ranked
           = filter (\<lambda>x. score_of B ?T x = k) ?corpus"
    by (simp add: stable_sort_keeps_order)
  have def: "\<forall>T item. score_of B T item =
           card {t \<in> T. sublist t (str_lower B
                   (text_of (dict_get item (u ''title'') (VStr [])) @ u '' ''
                    @ text_of (dict_get item (u ''snippet'') (VStr []))))}"
    by (simp add: score_of_def item_text_def)
  have tok: "?T = {str_lower B w | w. w \<in> set (str_split ?m) \<and> 2 < length w}"
    by (auto simp: tokens_of_def)
  have sp: "str_split [] = []"
    "\<forall>w. w \<noteq> [] \<and> (\<forall>c\<in>set w. \<not> is_space c) \<longrightarrow> str_split w = [w]"
    "\<forall>a c b. is_space c \<longrightarrow> str_split (a @ c # b) = str_split a @ str_split b"
    using str_split_equations by blast+
  show ?thesis
    apply (rule exI [of _ "make_reply B (take 3 ?ranked)"])
    apply (rule exI [of _ st'])
    apply (rule exI [of _ ?ranked])
    apply (intro conjI)
               apply (rule run)
              apply (rule refl)
             apply (rule sel)
            apply (rule perm)
           apply (rule desc)
          apply (rule stab)
         apply (rule sc)
        apply (rule def)
       apply (rule tok)
      apply (rule sp(1))
     apply (rule sp(2))
    apply (rule sp(3))
    done
qed


lemma rank_titled: "reachable rank_store" "\<forall>d\<in>set (corpus_source rank_store). titled d"
  by (simp_all add: rank_store_def corpus_source_def titled_def u_eq_iff)

lemma rank_message: "\<not> (\<forall>c\<in>set (u ''  Relay ELIXIR rust go ''). is_space c)"
  by (simp add: u_def is_space_def)

lemma rank_scores:
  "map (score_of ascii_builtins (set [u ''relay'', u ''elixir'', u ''rust'']))
     (corpus_items ascii_builtins rank_store) = [1, 0, 2, 1]"
proof -
  have r: "remdups [u ''relay'', u ''elixir'', u ''rust''] = [u ''relay'', u ''elixir'', u ''rust'']"
    by (simp add: u_eq_iff)
  have "map (score_of ascii_builtins (set [u ''relay'', u ''elixir'', u ''rust'']))
          (corpus_items ascii_builtins rank_store)
      = map (\<lambda>txt. length (filter (\<lambda>t. sublist t txt) [u ''relay'', u ''elixir'', u ''rust'']))
          (map (item_text ascii_builtins) (corpus_items ascii_builtins rank_store))"
    by (simp only: score_of_list_fun r map_map comp_def)
  also have "\<dots> = [1, 0, 2, 1]"
    by (simp only: rank_texts) (simp add: bullet_sep_def u_def sublist_code)
  finally show ?thesis .
qed

lemma rank_order:
  "take 3 (map fst (stable_sort snd True (zip [a, b, c, d] [1, 0, 2, 1 :: nat]))) = [c, a, d]"
  by (simp add: stable_sort_def)

lemma rank_lines:
  "make_reply ascii_builtins
     [[(u ''id'', VStr (u ''p3'')), (u ''title'', VStr (u ''Relay'')),
       (u ''description'', VStr (u ''elixir'')),
       (u ''snippet'', VStr (u ''Relay'' @ bullet_sep @ u ''elixir''))],
      [(u ''id'', VStr (u ''p1'')), (u ''title'', VStr (u ''Ledger'')),
       (u ''description'', VStr (u ''rust'')),
       (u ''snippet'', VStr (u ''Ledger'' @ bullet_sep @ u ''rust''))],
      [(u ''id'', VStr (u ''p4'')), (u ''title'', VStr (u ''Quill'')),
       (u ''description'', VStr (u ''Rust'')),
       (u ''snippet'', VStr (u ''Quill'' @ bullet_sep @ u ''Rust''))]]
   = str_join [10]
       [u ''Here are some highlights that match what you asked:'',
        u ''- Relay: Relay'' @ bullet_sep @ u ''elixir'',
        u ''- Ledger: Ledger'' @ bullet_sep @ u ''rust'',
        u ''- Quill: Quill'' @ bullet_sep @ u ''Rust'',
        u ''Want a deeper dive or a quick estimate? I can outline a plan step-by-step.'']"
  by (simp add: make_reply_def item_line_def dict_get_def u_eq_iff u_append)

theorem keyword_ranking_witness:
  "reachable rank_store
   \<and> tokens_of ascii_builtins (str_strip (u ''  Relay ELIXIR rust go ''))
       = set [u ''relay'', u ''elixir'', u ''rust'']
   \<and> map (score_of ascii_builtins (set [u ''relay'', u ''elixir'', u ''rust'']))
        (corpus_items ascii_builtins rank_store) = [1, 0, 2, 1]
   \<and> (\<exists>st'. assistant_chat ascii_builtins rank_store (u ''  Relay ELIXIR rust go '') =
          (Inr (str_join [10]
             [u ''Here are some highlights that match what you asked:'',
              u ''- Relay: Relay'' @ bullet_sep @ u ''elixir'',
              u ''- Ledger: Ledger'' @ bullet_sep @ u ''rust'',
              u ''- Quill: Quill'' @ bullet_sep @ u ''Rust'',
              u ''Want a deeper dive or a quick estimate? I can outline a plan step-by-step.'']),
           st'))"
proof -
  let ?T = "set [u ''relay'', u ''elixir'', u ''rust'']"
  let ?corpus = "corpus_items ascii_builtins rank_store"
  let ?msg = "u ''  Relay ELIXIR rust go ''"
  have T: "tokens_of ascii_builtins (str_strip ?msg) = ?T"
    by (simp only: demo_tokens)
  from keyword_ranking [OF rank_titled(1) rank_message rank_titled(2), of ascii_builtins]
  obtain reply st' ranked where
    run: "assistant_chat ascii_builtins rank_store ?msg = (Inr reply, st')"
    and rep: "reply = make_reply ascii_builtins (take 3 ranked)"
    and sel: "select_best ascii_builtins (tokens_of ascii_builtins (str_strip ?msg)) ?corpus
        = Inr (take 3 ranked)"
    and sc: "\<forall>item\<in>set ?corpus.
        score ascii_builtins (tokens_of ascii_builtins (str_strip ?msg)) item
          = Inr (score_of ascii_builtins (tokens_of ascii_builtins (str_strip ?msg)) item)"
    by (elim exE conjE) (rule that, assumption+)
  have sc': "\<forall>item\<in>set ?corpus.
        score ascii_builtins ?T item = Inr (score_of ascii_builtins ?T item)"
    using sc by (simp only: T)
  have sel': "select_best ascii_builtins ?T ?corpus = Inr (take 3 ranked)"
    using sel by (simp only: T)
  have col: "collect (score ascii_builtins ?T) ?corpus
      = Inr (map (score_of ascii_builtins ?T) ?corpus)"
    using sc' by (rule collect_total)
  have "select_best ascii_builtins ?T ?corpus
      = Inr (take 3 (map fst (stable_sort snd True (zip ?corpus [1, 0, 2, 1 :: nat]))))"
    by (simp only: select_best_def col sum.case rank_scores)
  with sel' have best: "take 3 ranked
      = take 3 (map fst (stable_sort snd True (zip ?corpus [1, 0, 2, 1 :: nat])))"
    by (simp only: sum.inject)
  have "reply = str_join [10]
             [u ''Here are some highlights that match what you asked:'',
              u ''- Relay: Relay'' @ bullet_sep @ u ''elixir'',
              u ''- Ledger: Ledger'' @ bullet_sep @ u ''rust'',
              u ''- Quill: Quill'' @ bullet_sep @ u ''Rust'',
              u ''Want a deeper dive or a quick estimate? I can outline a plan step-by-step.'']"
    by (simp only: rep best rank_corpus rank_order rank_lines)
  with run have r: "assistant_chat ascii_builtins rank_store ?msg =
          (Inr (str_join [10]
             [u ''Here are some highlights that match what you asked:'',
              u ''- Relay: Relay'' @ bullet_sep @ u ''elixir'',
              u ''- Ledger: Ledger'' @ bullet_sep @ u ''rust'',
              u ''- Quill: Quill'' @ bullet_sep @ u ''Rust'',
              u ''Want a deeper dive or a quick estimate? I can outline a plan step-by-step.'']),
           st')"
    by (simp only:)
  show ?thesis
    apply (intro conjI)
       apply (rule rank_titled(1))
      apply (rule T)
     apply (rule rank_scores)
    apply (rule exI [of _ st'])
    apply (rule r)
    done
qed

end
